(* ===== verification/Prelude.thy ===== *)
theory Prelude
  imports Complex_Main "HOL-Library.Sublist"
begin

text \<open>
  Shared vocabulary of the development: the Python exceptions that the spider
  in \<^verbatim>\<open>src/src/scrape.py\<close> can raise, the result type of fallible code
  (an exception is the left summand), the collections of simplification rules the
  component theories share, and generic lemmas on lists and sums.
\<close>

section \<open>Exceptions and results\<close>

text \<open>
  The exceptions raised on the paths of the source. \<open>NameError\<close> is an
  unbound name, \<open>KeyError\<close> a missing dictionary or attribute key,
  \<open>TypeError\<close> an operation on a value of the wrong type (subscripting a
  non-container, \<open>strptime(None)\<close>, a non-string body), \<open>AttributeError\<close> a
  method called on \<open>None\<close>, \<open>ValueError\<close> a date that does not match its
  format (and JSON that does not decode), \<open>IndexError\<close> \<open>xs[-1]\<close> on an empty
  list, \<open>NotImplementedError\<close> the explicit raise of the rating code.
\<close>

datatype py_error =
    NameError
  | KeyError
  | TypeError
  | AttributeError
  | ValueError
  | IndexError
  | NotImplementedError

type_synonym 'a py_result = "py_error + 'a"

text \<open>Python's \<open>xs[-1]\<close>: the last element, or \<open>IndexError\<close>.\<close>

definition py_last :: "'a list \<Rightarrow> 'a py_result" where
  "py_last xs = (if xs = [] then Inl IndexError else Inr (last xs))"

text \<open>\<open>d[k]\<close> on a dictionary held as an association list (first binding wins,
  as the HTML parser keeps the first of duplicate attributes).\<close>

definition py_getitem :: "('k \<times> 'v) list \<Rightarrow> 'k \<Rightarrow> 'v py_result" where
  "py_getitem kvs k = (case map_of kvs k of None \<Rightarrow> Inl KeyError | Some v \<Rightarrow> Inr v)"

text \<open>\<open>SelectorList.get()\<close>: the first result, or \<open>None\<close>.\<close>

definition get_first :: "'a list \<Rightarrow> 'a option" where
  "get_first xs = (case xs of [] \<Rightarrow> None | x # _ \<Rightarrow> Some x)"

section \<open>Shared rule collections\<close>

named_theorems str_simps "evaluation rules of the Python string model"
named_theorems html_simps "evaluation rules of the HTML query model"

section \<open>Generic lemmas\<close>

lemma py_last_Inr [simp]: "xs \<noteq> [] \<Longrightarrow> py_last xs = Inr (last xs)"
  by (simp add: py_last_def)

lemma py_last_Nil [simp]: "py_last [] = Inl IndexError"
  by (simp add: py_last_def)

lemma py_last_snoc [simp]: "py_last (xs @ [x]) = Inr x"
  by (simp add: py_last_def)

lemma py_getitem_Inr_iff [simp]: "py_getitem kvs k = Inr v \<longleftrightarrow> map_of kvs k = Some v"
  by (simp add: py_getitem_def split: option.splits)

lemma py_getitem_Inl_iff [simp]: "py_getitem kvs k = Inl e \<longleftrightarrow> map_of kvs k = None \<and> e = KeyError"
  by (auto simp add: py_getitem_def split: option.splits)

lemma get_first_simps [simp]:
  "get_first [] = None"
  "get_first (x # xs) = Some x"
  by (simp_all add: get_first_def)

lemma get_first_append [simp]:
  "get_first (xs @ ys) = (if xs = [] then get_first ys else get_first xs)"
  by (cases xs) simp_all

lemma get_first_None_iff [simp]: "get_first xs = None \<longleftrightarrow> xs = []"
  by (cases xs) simp_all

lemma prefix_drop_append:
  "prefix p s \<Longrightarrow> s = p @ drop (length p) s"
  by (auto simp: prefix_def)

lemma length_drop_less:
  "p \<noteq> [] \<Longrightarrow> length (drop (length p) (c # cs)) < Suc (length cs)"
  by (cases p) auto

lemma filter_concat_map_eq:
  "filter P (concat (map f xs)) = concat (map (\<lambda>x. filter P (f x)) xs)"
  by (induction xs) simp_all

lemma set_map_filter_eq: "set (List.map_filter f xs) = {y. \<exists>x. x \<in> set xs \<and> f x = Some y}"
  by (induction xs) (auto simp: map_filter_simps split: option.splits)

lemma map_filter_append [simp]:
  "List.map_filter f (xs @ ys) = List.map_filter f xs @ List.map_filter f ys"
  by (induction xs) (simp_all add: map_filter_simps split: option.splits)

lemma length_map_filter_le: "length (List.map_filter f xs) \<le> length xs"
  by (induction xs) (auto simp: map_filter_simps split: option.splits)

lemma set_concat_map_mem: "x \<in> set xs \<Longrightarrow> set (f x) \<subseteq> set (concat (map f xs))"
  by auto

lemma length_remove1_less: "x \<in> set xs \<Longrightarrow> length (remove1 x xs) < length xs"
  by (induction xs) auto

lemma dropWhile_all_not: "\<forall>x\<in>set xs. \<not> P x \<Longrightarrow> dropWhile P xs = xs"
  by (cases xs) simp_all

end
