(* ===== verification/PyStr.thy ===== *)
theory PyStr
  imports Prelude
begin

text \<open>
  The Python string operations the spider applies: \<open>str.isspace\<close>,
  \<open>str.strip()\<close>, \<open>str.replace(old, new)\<close>, \<open>str.split(sep)\<close> and
  \<open>sep.join(xs)\<close>, decimal printing of an \<open>int\<close> (f-strings and
  \<open>strftime\<close>) and \<open>int()\<close> of a digit string (\<open>strptime\<close>).
  A Python \<open>str\<close> is a sequence of code points; Isabelle's \<open>char\<close> has 256
  values, so the model covers the strings whose code points are below 256 (the
  Latin-1 range, which holds every character the source names: CR, LF and the
  no-break space U+00A0). These are CPython's built-in semantics, which the source
  calls; they are not code of the repository and carry no map entry.
\<close>

abbreviation CR :: char where "CR \<equiv> CHR 0x0D"
abbreviation LF :: char where "LF \<equiv> CHR 0x0A"
abbreviation NBSP :: char where "NBSP \<equiv> CHR 0xA0"

section \<open>Whitespace and \<open>strip\<close>\<close>

text \<open>\<open>str.isspace\<close> on one code point below 256: TAB..CR, the four
  information separators 0x1C..0x1F, space, NEL (0x85) and NBSP (0xA0).\<close>

definition py_isspace :: "char \<Rightarrow> bool" where
  "py_isspace c \<longleftrightarrow>
     (let n = (of_char c :: nat)
      in (9 \<le> n \<and> n \<le> 13) \<or> (28 \<le> n \<and> n \<le> 32) \<or> n = 133 \<or> n = 160)"

text \<open>\<open>s.strip()\<close>: drop leading and trailing whitespace.\<close>

definition py_strip :: "string \<Rightarrow> string" where
  "py_strip s = rev (dropWhile py_isspace (rev (dropWhile py_isspace s)))"

section \<open>\<open>replace\<close>, \<open>split\<close> and \<open>join\<close>\<close>

text \<open>
  \<open>s.replace(old, new)\<close> scans left to right and replaces each occurrence of
  \<open>old\<close> that does not overlap an earlier replaced one. The scan for a non-empty
  \<open>old\<close> is \<open>py_replace_from\<close>; an empty \<open>old\<close> inserts \<open>new\<close> before
  every character and at the end.
\<close>

function py_replace_from :: "string \<Rightarrow> string \<Rightarrow> string \<Rightarrow> string" where
  "py_replace_from old new [] = []"
| "py_replace_from old new (c # cs) =
     (if old \<noteq> [] \<and> prefix old (c # cs)
      then new @ py_replace_from old new (drop (length old) (c # cs))
      else c # py_replace_from old new cs)"
  by pat_completeness auto
termination
  by (relation "measure (\<lambda>(old, new, s). length s)") (auto simp: length_drop_less)

definition py_replace :: "string \<Rightarrow> string \<Rightarrow> string \<Rightarrow> string" where
  "py_replace old new s =
     (if old = [] then new @ concat (map (\<lambda>c. c # new) s)
      else py_replace_from old new s)"

text \<open>\<open>s.split(sep)\<close> for a non-empty separator (an empty one raises
  \<open>ValueError\<close>), and \<open>sep.join(ws)\<close>.\<close>

function py_split_from :: "string \<Rightarrow> string \<Rightarrow> string list" where
  "py_split_from sep [] = [[]]"
| "py_split_from sep (c # cs) =
     (if sep \<noteq> [] \<and> prefix sep (c # cs)
      then [] # py_split_from sep (drop (length sep) (c # cs))
      else (case py_split_from sep cs of [] \<Rightarrow> [[c]] | w # ws \<Rightarrow> (c # w) # ws))"
  by pat_completeness auto
termination
  by (relation "measure (\<lambda>(sep, s). length s)") (auto simp: length_drop_less)

definition py_split :: "string \<Rightarrow> string \<Rightarrow> string list py_result" where
  "py_split sep s = (if sep = [] then Inl ValueError else Inr (py_split_from sep s))"

fun py_join :: "string \<Rightarrow> string list \<Rightarrow> string" where
  "py_join sep [] = []"
| "py_join sep [w] = w"
| "py_join sep (w # v # ws) = w @ sep @ py_join sep (v # ws)"

section \<open>Decimal digits\<close>

definition digit_char :: "nat \<Rightarrow> char" where
  "digit_char d = char_of (48 + d)"

definition is_digit :: "char \<Rightarrow> bool" where
  "is_digit c \<longleftrightarrow> 48 \<le> (of_char c :: nat) \<and> (of_char c :: nat) \<le> 57"

definition digit_val :: "char \<Rightarrow> nat" where
  "digit_val c = of_char c - 48"

text \<open>\<open>str(n)\<close> for \<open>n \<ge> 0\<close>: the decimal digits, most significant first.\<close>

fun py_str_nat :: "nat \<Rightarrow> string" where
  "py_str_nat n =
     (if n < 10 then [digit_char n] else py_str_nat (n div 10) @ [digit_char (n mod 10)])"

declare py_str_nat.simps [simp del]

text \<open>\<open>int(s)\<close> of a string of ASCII digits.\<close>

definition py_int_digits :: "string \<Rightarrow> nat" where
  "py_int_digits s = foldl (\<lambda>acc c. 10 * acc + digit_val c) 0 s"

text \<open>Zero padding to a width, as \<open>strftime\<close>'s \<open>%m\<close>, \<open>%d\<close> and \<open>%Y\<close> do.\<close>

definition zfill :: "nat \<Rightarrow> string \<Rightarrow> string" where
  "zfill k s = replicate (k - length s) (CHR ''0'') @ s"

section \<open>Lemmas\<close>

subsection \<open>replace\<close>

lemma py_replace_ne [simp]: "old \<noteq> [] \<Longrightarrow> py_replace old new s = py_replace_from old new s"
  by (simp add: py_replace_def)

lemma py_replace_from_append_no_head:
  assumes "old \<noteq> []" and "hd old \<notin> set w"
  shows "py_replace_from old new (w @ s) = w @ py_replace_from old new s"
  using assms(2)
proof (induction w)
  case Nil
  then show ?case by simp
next
  case (Cons c w)
  from Cons.prems assms(1) have "\<not> prefix old (c # w @ s)"
    by (cases old) auto
  with Cons show ?case by simp
qed

lemma py_replace_from_no_sublist:
  "\<not> sublist old s \<Longrightarrow> py_replace_from old new s = s"
proof (induction old new s rule: py_replace_from.induct)
  case (2 old new c cs)
  then have "\<not> (old \<noteq> [] \<and> prefix old (c # cs))" and "\<not> sublist old cs"
    by (auto simp: sublist_Cons_right)
  with 2 show ?case by auto
qed simp

lemma py_replace_from_prefix [str_simps]:
  "old \<noteq> [] \<Longrightarrow> py_replace_from old new (old @ s) = new @ py_replace_from old new s"
  by (cases old) simp_all

lemma py_replace_from_single [str_simps]:
  "py_replace_from [a] new (c # cs) =
     (if c = a then new @ py_replace_from [a] new cs else c # py_replace_from [a] new cs)"
  by simp

lemma py_replace_from_single_notin:
  "a \<notin> set s \<Longrightarrow> py_replace_from [a] new s = s"
  by (induction s) simp_all

lemma py_replace_from_single_removes:
  "a \<notin> set new \<Longrightarrow> a \<notin> set (py_replace_from [a] new s)"
  by (induction s) auto

lemma set_py_replace_from:
  "set (py_replace_from old new s) \<subseteq> set s \<union> set new"
proof (induction old new s rule: py_replace_from.induct)
  case (2 old new c cs)
  have "set (drop (length old) (c # cs)) \<subseteq> set (c # cs)"
    by (rule set_drop_subset)
  with 2 show ?case by auto
qed simp

text \<open>A position where \<open>old\<close> does not start is copied.\<close>

lemma py_replace_from_skip:
  "\<not> prefix old (c # cs) \<Longrightarrow> py_replace_from old new (c # cs) = c # py_replace_from old new cs"
  by simp

subsection \<open>split and join\<close>

lemma py_split_from_not_Nil [simp]: "py_split_from sep s \<noteq> []"
  by (induction sep s rule: py_split_from.induct) (auto split: list.splits)

lemma py_join_Cons_Cons [simp]: "py_join sep ((c # w) # ws) = c # py_join sep (w # ws)"
  by (cases ws) simp_all

lemma py_join_Nil_Cons: "ws \<noteq> [] \<Longrightarrow> py_join sep ([] # ws) = sep @ py_join sep ws"
  by (cases ws) simp_all

text \<open>Reference characterisation: \<open>s.replace(old, new) == new.join(s.split(old))\<close>.\<close>

lemma py_replace_from_eq_join_split:
  "old \<noteq> [] \<Longrightarrow> py_replace_from old new s = py_join new (py_split_from old s)"
proof (induction old new s rule: py_replace_from.induct)
  case (2 old new c cs)
  show ?case
  proof (cases "prefix old (c # cs)")
    case True
    with 2 show ?thesis by (simp add: py_join_Nil_Cons)
  next
    case False
    obtain w ws where ws: "py_split_from old cs = w # ws"
      by (cases "py_split_from old cs") auto
    with False 2 show ?thesis by simp
  qed
qed simp

lemma py_replace_from_same_aux: "new = old \<Longrightarrow> py_replace_from old new s = s"
proof (induction old new s rule: py_replace_from.induct)
  case (2 old new c cs)
  show ?case
  proof (cases "old \<noteq> [] \<and> prefix old (c # cs)")
    case True
    then have "old @ drop (length old) (c # cs) = c # cs"
      by (simp add: prefix_drop_append [symmetric])
    with True 2 show ?thesis by simp
  next
    case False
    then have "py_replace_from old new (c # cs) = c # py_replace_from old new cs"
      by auto
    with False 2 show ?thesis by simp
  qed
qed simp

lemma py_replace_from_same: "py_replace_from old old s = s"
  by (rule py_replace_from_same_aux) (rule refl)

lemma py_join_split_from: "sep \<noteq> [] \<Longrightarrow> py_join sep (py_split_from sep s) = s"
  using py_replace_from_eq_join_split [of sep sep s] by (simp add: py_replace_from_same)

subsection \<open>Decimal digits\<close>

lemma digit_val_digit_char [simp]: "d < 10 \<Longrightarrow> digit_val (digit_char d) = d"
  by (simp add: digit_val_def digit_char_def)

lemma is_digit_digit_char [simp]: "d < 10 \<Longrightarrow> is_digit (digit_char d)"
  by (simp add: is_digit_def digit_char_def)

lemma py_int_digits_snoc [simp]:
  "py_int_digits (s @ [c]) = 10 * py_int_digits s + digit_val c"
  by (simp add: py_int_digits_def)

lemma py_int_digits_Nil [simp]: "py_int_digits [] = 0"
  by (simp add: py_int_digits_def)

lemma py_int_digits_py_str_nat [simp]: "py_int_digits (py_str_nat n) = n"
proof (induction n rule: py_str_nat.induct)
  case (1 n)
  show ?case
  proof (cases "n < 10")
    case True
    then show ?thesis
      by (simp add: py_str_nat.simps [of n] py_int_digits_def)
  next
    case False
    with "1.IH" show ?thesis
      by (simp add: py_str_nat.simps [of n])
  qed
qed

lemma py_str_nat_inj: "py_str_nat m = py_str_nat n \<Longrightarrow> m = n"
  by (metis py_int_digits_py_str_nat)

lemma py_str_nat_not_Nil [simp]: "py_str_nat n \<noteq> []"
  by (subst py_str_nat.simps) simp

lemma py_str_nat_digits: "c \<in> set (py_str_nat n) \<Longrightarrow> is_digit c"
proof (induction n rule: py_str_nat.induct)
  case (1 n)
  then show ?case
    by (cases "n < 10") (auto simp: py_str_nat.simps [of n])
qed

lemma length_py_str_nat_le:
  "n < 10 ^ k \<Longrightarrow> 0 < k \<Longrightarrow> length (py_str_nat n) \<le> k"
proof (induction n arbitrary: k rule: py_str_nat.induct)
  case (1 n)
  show ?case
  proof (cases "n < 10")
    case True
    with "1.prems" show ?thesis by (simp add: py_str_nat.simps [of n])
  next
    case False
    with "1.prems" obtain k' where k: "k = Suc k'" and "0 < k'"
      by (cases k; cases "k - 1") auto
    with "1.prems" have "n div 10 < 10 ^ k'"
      by (simp add: div_less_iff_less_mult mult.commute)
    with False "1.IH" \<open>0 < k'\<close> k show ?thesis
      by (simp add: py_str_nat.simps [of n])
  qed
qed

lemma length_zfill: "length s \<le> k \<Longrightarrow> length (zfill k s) = k"
  by (simp add: zfill_def)

text \<open>\<open>strip\<close> is idempotent: a stripped string starts and ends with no whitespace.\<close>

lemma dropWhile_dropWhile: "dropWhile P (dropWhile P xs) = dropWhile P xs"
  by (induction xs) auto

lemma hd_rev_dropWhile_rev:
  "xs \<noteq> [] \<Longrightarrow> \<not> P (hd xs) \<Longrightarrow>
     rev (dropWhile P (rev xs)) = [] \<or> hd (rev (dropWhile P (rev xs))) = hd xs"
proof (induction xs rule: rev_induct)
  case (snoc x xs)
  show ?case
  proof (cases "P x")
    case True
    with snoc.prems have "xs \<noteq> []" by auto
    with True snoc show ?thesis by auto
  next
    case False
    then show ?thesis by simp
  qed
qed simp

lemma dropWhile_hd_not: "xs = [] \<or> \<not> P (hd xs) \<Longrightarrow> dropWhile P xs = xs"
  by (cases xs) auto

lemma py_strip_idem: "py_strip (py_strip s) = py_strip s"
proof -
  let ?a = "dropWhile py_isspace s"
  let ?b = "rev (dropWhile py_isspace (rev ?a))"
  have "?a = [] \<or> \<not> py_isspace (hd ?a)"
    by (metis hd_dropWhile)
  then have "?b = [] \<or> \<not> py_isspace (hd ?b)"
  proof
    assume a: "?a = []"
    show ?thesis unfolding a by simp
  next
    assume h: "\<not> py_isspace (hd ?a)"
    show ?thesis
    proof (cases "?a = []")
      case True
      show ?thesis unfolding True by simp
    next
      case False
      from hd_rev_dropWhile_rev [OF False, of py_isspace] h show ?thesis
        by (simp only:) metis
    qed
  qed
  then have "dropWhile py_isspace ?b = ?b"
    by (rule dropWhile_hd_not)
  then show ?thesis
    by (simp add: py_strip_def dropWhile_dropWhile)
qed

end
