(* ===== verification/Html.thy ===== *)
theory Html
  imports PyStr
begin

text \<open>
  The document model and the selector queries of the spider. Scrapy parses a
  response body with lxml and evaluates XPath (and CSS selectors translated to
  XPath by cssselect) on the resulting tree. The parser is an external
  collaborator and stays a parameter (\<open>html_parser\<close>); what the source
  specifies is which queries it makes, and these are modelled here on an
  element/text tree: an element has a tag, its attributes in document order and
  its children; text nodes carry their characters. Query results are in document
  order (preorder), as XPath node-sets are.
\<close>

datatype node =
    Element string "(string \<times> string) list" "node list"
  | TextNode string

type_synonym html_parser = "string \<Rightarrow> node"

section \<open>Node accessors\<close>

fun attrib :: "node \<Rightarrow> (string \<times> string) list" where
  "attrib (Element t as ks) = as"
| "attrib (TextNode s) = []"

fun children :: "node \<Rightarrow> node list" where
  "children (Element t as ks) = ks"
| "children (TextNode s) = []"

fun is_tag :: "string \<Rightarrow> node \<Rightarrow> bool" where
  "is_tag t (Element t' as ks) \<longleftrightarrow> t' = t"
| "is_tag t (TextNode s) \<longleftrightarrow> False"

fun is_text :: "node \<Rightarrow> bool" where
  "is_text (Element t as ks) \<longleftrightarrow> False"
| "is_text (TextNode s) \<longleftrightarrow> True"

text \<open>\<open>@name\<close>: the attribute's value, if the node has it.\<close>

definition attr :: "node \<Rightarrow> string \<Rightarrow> string option" where
  "attr n k = map_of (attrib n) k"

text \<open>XPath \<open>string(.)\<close>: the text of all descendant text nodes, in order.\<close>

fun string_value :: "node \<Rightarrow> string" where
  "string_value (TextNode s) = s"
| "string_value (Element t as ks) = concat (map string_value ks)"

section \<open>Axes\<close>

text \<open>\<open>descendant-or-self::node()[P]\<close>, in document order.\<close>

fun desc_or_self :: "(node \<Rightarrow> bool) \<Rightarrow> node \<Rightarrow> node list" where
  "desc_or_self P (TextNode s) = (if P (TextNode s) then [TextNode s] else [])"
| "desc_or_self P (Element t as ks) =
     (if P (Element t as ks) then [Element t as ks] else []) @
     concat (map (desc_or_self P) ks)"

text \<open>
  \<open>//X/Y\<close>: the nodes satisfying \<open>Q\<close> whose parent satisfies \<open>P\<close>, in document
  order. The flag says whether the parent of the current node satisfies \<open>P\<close>; the
  root's parent is the document node, which satisfies no node test.
\<close>

fun child_of :: "(node \<Rightarrow> bool) \<Rightarrow> (node \<Rightarrow> bool) \<Rightarrow> bool \<Rightarrow> node \<Rightarrow> node list" where
  "child_of P Q pm (TextNode s) = (if pm \<and> Q (TextNode s) then [TextNode s] else [])"
| "child_of P Q pm (Element t as ks) =
     (if pm \<and> Q (Element t as ks) then [Element t as ks] else []) @
     concat (map (child_of P Q (P (Element t as ks))) ks)"

text \<open>A relative step \<open>X\<close> from a context node: its children satisfying \<open>P\<close>.\<close>

definition child_step :: "(node \<Rightarrow> bool) \<Rightarrow> node \<Rightarrow> node list" where
  "child_step P n = filter P (children n)"

section \<open>CSS class selectors\<close>

text \<open>
  cssselect translates \<open>.c\<close> to
  \<open>@class and contains(concat(' ', normalize-space(@class), ' '), ' c ')\<close>.
  XPath's \<open>normalize-space\<close> strips XML whitespace (space, tab, CR, LF) and
  collapses inner runs to one space.
\<close>

definition xml_ws :: "char \<Rightarrow> bool" where
  "xml_ws c \<longleftrightarrow> c = CHR '' '' \<or> c = CHR 0x09 \<or> c = CHR 0x0A \<or> c = CHR 0x0D"

function xml_words :: "string \<Rightarrow> string list" where
  "xml_words s =
     (let s' = dropWhile xml_ws s
      in if s' = [] then []
         else takeWhile (\<lambda>c. \<not> xml_ws c) s' # xml_words (dropWhile (\<lambda>c. \<not> xml_ws c) s'))"
  by pat_completeness auto
termination
proof (relation "measure length")
  fix s s'
  assume s': "s' = dropWhile xml_ws s" and ne: "s' \<noteq> []"
  then have "\<not> xml_ws (hd s')"
    by (metis hd_dropWhile)
  with ne have "length (dropWhile (\<lambda>c. \<not> xml_ws c) s') < length s'"
    by (cases s') (auto simp: length_dropWhile_le le_imp_less_Suc)
  moreover have "length s' \<le> length s"
    using s' by (simp add: length_dropWhile_le)
  ultimately show "(dropWhile (\<lambda>c. \<not> xml_ws c) s', s) \<in> measure length"
    by simp
qed simp

declare xml_words.simps [simp del]

definition normalize_space :: "string \<Rightarrow> string" where
  "normalize_space s = py_join '' '' (xml_words s)"

definition has_class :: "string \<Rightarrow> node \<Rightarrow> bool" where
  "has_class c n =
     (case attr n ''class'' of
        None \<Rightarrow> False
      | Some v \<Rightarrow> sublist (CHR '' '' # c @ '' '') (CHR '' '' # normalize_space v @ '' ''))"

section \<open>The queries of the spider\<close>

text \<open>\<open>response.css('.c')\<close>: the elements of class \<open>c\<close>.\<close>

definition css_select :: "string \<Rightarrow> node \<Rightarrow> node list" where
  "css_select c doc = desc_or_self (has_class c) doc"

text \<open>\<open>response.css('.c::text').getall()\<close>: the text-node children of elements
  of class \<open>c\<close>, in document order.\<close>

definition css_text :: "string \<Rightarrow> node \<Rightarrow> string list" where
  "css_text c doc = map string_value (child_of (has_class c) is_text False doc)"

end
