(* ===== verification/Rating.thy ===== *)
theory Rating
  imports Html
begin

text \<open>
  The star rating of a review (\<^verbatim>\<open>parse_review\<close>, lines 73--89 of
  \<^verbatim>\<open>src/src/scrape.py\<close>). The widget is a sequence of \<open><i>\<close> icons whose
  \<open>title\<close> attribute names the icon; every icon but the last is counted as a
  full star and the last one decides the fraction. The \<open>try\<close> block is
  \<open>rating_try\<close>, with each exception it can raise as a left value; the
  \<open>except Exception\<close> handler is \<open>star_rating\<close>. The abstract
  specification (the spec's enumerated outcome) is \<open>classify_icons\<close> with
  \<open>outcome_rating\<close>, and \<open>star_rating_refines\<close> shows the code implements it.
  Python's \<open>int\<close>/\<open>float\<close> rating is a \<open>rat\<close>: the values are
  \<open>k\<close> and \<open>k + 0.5\<close>, which a binary float holds exactly.
\<close>

section \<open>The code\<close>

text \<open>\<open>response.css('.page-content--star-rating').xpath("span/i")\<close>.\<close>

definition star_icons :: "node \<Rightarrow> node list" where
  "star_icons doc =
     concat (map (\<lambda>m. concat (map (child_step (is_tag ''i'')) (child_step (is_tag ''span'') m)))
                 (css_select ''page-content--star-rating'' doc))"

text \<open>The \<open>try\<close> body, lines 74--85: \<open>rating = len(star_div) - 1\<close>, then
  \<open>star_div[-1].attrib['title']\<close> and the \<open>if/elif\<close> chain.\<close>

definition rating_try :: "node list \<Rightarrow> rat option py_result" where
  "rating_try star_div =
     (let rating = (of_int (int (length star_div) - 1) :: rat)
      in case py_last star_div of
           Inl e \<Rightarrow> Inl e
         | Inr icon \<Rightarrow>
             (case py_getitem (attrib icon) ''title'' of
                Inl e \<Rightarrow> Inl e
              | Inr last_star_type \<Rightarrow>
                  if last_star_type = ''star-full'' then Inr (Some (rating + 1))
                  else if last_star_type = ''star-half'' then Inr (Some (rating + 1 / 2))
                  else if last_star_type = ''thumbsdown'' then Inr None
                  else Inl NotImplementedError))"

text \<open>Lines 86--89: every exception of the \<open>try\<close> body becomes \<open>None\<close>.\<close>

definition star_rating :: "node list \<Rightarrow> rat option" where
  "star_rating star_div = (case rating_try star_div of Inl _ \<Rightarrow> None | Inr r \<Rightarrow> r)"

section \<open>The abstract specification\<close>

text \<open>The outcome of the widget as a closed set of tags (spec, sections 4.3 and 9):
  the five cases stay distinguishable here although three of them collapse to an
  absent rating.\<close>

datatype star_outcome = NoIcons | Full | Half | ThumbsDown | UnknownIcon | MissingTitle

definition classify_icons :: "node list \<Rightarrow> star_outcome" where
  "classify_icons icons =
     (if icons = [] then NoIcons
      else case attr (last icons) ''title'' of
             None \<Rightarrow> MissingTitle
           | Some t \<Rightarrow>
               if t = ''star-full'' then Full
               else if t = ''star-half'' then Half
               else if t = ''thumbsdown'' then ThumbsDown
               else UnknownIcon)"

fun outcome_rating :: "nat \<Rightarrow> star_outcome \<Rightarrow> rat option" where
  "outcome_rating n Full = Some (of_nat n)"
| "outcome_rating n Half = Some (of_nat n - 1 / 2)"
| "outcome_rating n _ = None"

section \<open>Lemmas\<close>

lemma rating_try_eq:
  "rating_try icons =
     (case classify_icons icons of
        NoIcons \<Rightarrow> Inl IndexError
      | MissingTitle \<Rightarrow> Inl KeyError
      | UnknownIcon \<Rightarrow> Inl NotImplementedError
      | ThumbsDown \<Rightarrow> Inr None
      | Full \<Rightarrow> Inr (Some (of_nat (length icons)))
      | Half \<Rightarrow> Inr (Some (of_nat (length icons) - 1 / 2)))"
proof (cases "icons = []")
  case True
  then show ?thesis by (simp add: rating_try_def classify_icons_def)
next
  case False
  then have len: "of_int (int (length icons) - 1) = (of_nat (length icons) :: rat) - 1"
    by simp
  from False show ?thesis
    by (simp add: rating_try_def classify_icons_def attr_def py_getitem_def len
        split: option.splits)
qed

lemma classify_icons_Nil [simp]: "classify_icons [] = NoIcons"
  by (simp add: classify_icons_def)

lemma classify_icons_NoIcons [simp]: "classify_icons icons = NoIcons \<longleftrightarrow> icons = []"
  by (auto simp: classify_icons_def split: option.splits)

lemma classify_icons_snoc: "classify_icons (xs @ [x]) = classify_icons [x]"
  by (simp add: classify_icons_def)

lemma outcome_rating_Some:
  "outcome_rating n k = Some r \<Longrightarrow>
     (k = Full \<and> r = of_nat n) \<or> (k = Half \<and> r = of_nat n - 1 / 2)"
  by (cases k) auto

lemma classify_icons_rated_nonempty:
  "classify_icons icons \<in> {Full, Half} \<Longrightarrow> icons \<noteq> []"
  by (auto simp: classify_icons_def)

lemma star_rating_outcome:
  "star_rating icons = outcome_rating (length icons) (classify_icons icons)"
  by (simp add: star_rating_def rating_try_eq split: star_outcome.splits)

lemma star_rating_Some_cases:
  assumes "star_rating icons = Some r"
  shows "icons \<noteq> [] \<and>
    (r = of_nat (length icons) \<or> r = of_nat (length icons) - 1 / 2)"
proof -
  from assms have o: "outcome_rating (length icons) (classify_icons icons) = Some r"
    by (simp add: star_rating_outcome)
  then have "classify_icons icons \<in> {Full, Half}"
    by (cases "classify_icons icons") auto
  with outcome_rating_Some [OF o] classify_icons_rated_nonempty show ?thesis
    by blast
qed

lemma star_rating_ge_half: "star_rating icons = Some r \<Longrightarrow> 1 / 2 \<le> r"
  by (cases icons) (auto dest!: star_rating_Some_cases)

lemma star_rating_half_step:
  assumes "star_rating icons = Some r"
  shows "1 / 2 \<le> r \<and> 2 * r = of_int \<lfloor>2 * r\<rfloor>"
proof -
  from star_rating_Some_cases [OF assms] have "r = of_nat (length icons) \<or> r = of_nat (length icons) - 1 / 2"
    by blast
  then have "2 * r = of_int (2 * int (length icons)) \<or> 2 * r = of_int (2 * int (length icons) - 1)"
    by (auto simp: field_simps)
  then have "2 * r = of_int \<lfloor>2 * r\<rfloor>"
    by (metis floor_of_int)
  with star_rating_ge_half [OF assms] show ?thesis by blast
qed

section \<open>Properties\<close>

text \<open>C1. The rating code implements the enumerated specification: with \<open>n\<close>
  icons, a last icon "star-full" gives \<open>n\<close>, "star-half" gives \<open>n - 0.5\<close>, and
  a missing widget, a "thumbsdown", an unknown icon and an icon without a title all
  give no rating.\<close>

theorem star_rating_refines:
  "star_rating icons = outcome_rating (length icons) (classify_icons icons)"
  by (rule star_rating_outcome)

text \<open>C2. A rating that is present is a multiple of one half between 0.5 and the
  number of icons.\<close>

theorem star_rating_bounds:
  assumes "star_rating icons = Some r"
  shows "1 / 2 \<le> r \<and> r \<le> of_nat (length icons) \<and> (\<exists>k::nat. r = of_nat k / 2)"
proof -
  from star_rating_Some_cases [OF assms] have ne: "1 \<le> length icons"
    and r: "r = of_nat (length icons) \<or> r = of_nat (length icons) - 1 / 2"
    by (auto simp: Suc_le_eq)
  from r have "\<exists>k::nat. r = of_nat k / 2"
  proof
    assume "r = of_nat (length icons)"
    then show ?thesis by (intro exI [of _ "2 * length icons"]) simp
  next
    assume "r = of_nat (length icons) - 1 / 2"
    with ne have "r = of_nat (2 * length icons - 1) / 2"
      by (simp add: field_simps)
    then show ?thesis ..
  qed
  moreover from r have "r \<le> of_nat (length icons)"
    by auto
  ultimately show ?thesis
    using star_rating_ge_half [OF assms] by blast
qed

theorem star_rating_bounds_witness:
  "star_rating [Element ''i'' [(''title'', ''star-full'')] [], Element ''i'' [(''title'', ''star-half'')] []]
     = Some (3 / 2) \<and>
   1 / 2 \<le> (3 / 2 :: rat) \<and> (3 / 2 :: rat) \<le> of_nat 2 \<and> (\<exists>k::nat. (3 / 2 :: rat) = of_nat k / 2)"
proof -
  have h: "star_rating [Element ''i'' [(''title'', ''star-full'')] [],
      Element ''i'' [(''title'', ''star-half'')] []] = Some (3 / 2)"
    by (simp add: star_rating_def rating_try_def py_getitem_def)
  show ?thesis
    using h star_rating_bounds [OF h] by simp
qed

text \<open>C3. Only the number of icons and the type of the last icon matter: the
  types of all the other icons are ignored (each counts as a full star).\<close>

theorem star_rating_last_icon_only:
  "length xs = length ys \<Longrightarrow> star_rating (xs @ [x]) = star_rating (ys @ [x])"
  by (simp add: star_rating_outcome classify_icons_snoc)

theorem star_rating_last_icon_only_witness:
  "length [Element ''i'' [(''title'', ''star-half'')] []] = length [Element ''i'' [(''title'', ''thumbsdown'')] []] \<and>
   star_rating [Element ''i'' [(''title'', ''star-half'')] [], Element ''i'' [(''title'', ''star-full'')] []] =
   star_rating [Element ''i'' [(''title'', ''thumbsdown'')] [], Element ''i'' [(''title'', ''star-full'')] []]"
  using star_rating_last_icon_only [of "[Element ''i'' [(''title'', ''star-half'')] []]"
      "[Element ''i'' [(''title'', ''thumbsdown'')] []]" "Element ''i'' [(''title'', ''star-full'')] []"]
  by simp

text \<open>C4. The exceptions of the \<open>try\<close> block: no icons raise \<open>IndexError\<close>, a
  last icon without a title raises \<open>KeyError\<close>, an unknown icon type raises
  \<open>NotImplementedError\<close>; "thumbsdown" raises nothing and gives \<open>None\<close>.\<close>

theorem rating_try_errors:
  "rating_try icons = Inl e \<longleftrightarrow>
     (icons = [] \<and> e = IndexError) \<or>
     (classify_icons icons = MissingTitle \<and> e = KeyError) \<or>
     (classify_icons icons = UnknownIcon \<and> e = NotImplementedError)"
  by (cases "classify_icons icons") (auto simp: rating_try_eq)

end
