(* ===== verification/Article.thy ===== *)
theory Article
  imports Html
begin

text \<open>
  Reconstruction of the article text (\<^verbatim>\<open>parse_review\<close>, lines 56, 62--68
  and 95 of \<^verbatim>\<open>src/src/scrape.py\<close>). Before parsing, a carriage return is
  written before every \<open><i>\<close> and after every \<open></i>\<close> of the raw markup
  (\<open>inject_italics\<close>); each content block's string value is then cleaned
  (\<open>clean_section\<close>: no-break spaces and newlines removed, each carriage return
  turned into a blank line, whitespace stripped), the blocks are joined with blank
  lines and one pass of \<open>replace("\n\n\n\n", "\n\n")\<close> follows
  (\<open>article_copy\<close>). \<open>build_review\<close> prefixes the bold article title.
\<close>

abbreviation para_break :: string where "para_break \<equiv> [LF, LF]"
abbreviation quad_break :: string where "quad_break \<equiv> [LF, LF, LF, LF]"

section \<open>The code\<close>

text \<open>Line 56: \<open>text.replace('<i>', '\r<i>').replace('</i>', "</i>\r")\<close>.\<close>

definition inject_italics :: "string \<Rightarrow> string" where
  "inject_italics text =
     py_replace ''</i>'' (''</i>'' @ [CR]) (py_replace ''<i>'' (CR # ''<i>'') text)"

text \<open>Line 63: the string value of every content block.\<close>

definition article_sections :: "node \<Rightarrow> string list" where
  "article_sections doc =
     map string_value (css_select ''page-content--block_editor-content'' doc)"

text \<open>Line 66:
  \<open>s.replace('\xa0', '').replace('\n', '').replace('\r', '\n\n').strip()\<close>.\<close>

definition clean_section :: "string \<Rightarrow> string" where
  "clean_section s =
     py_strip (py_replace [CR] para_break (py_replace [LF] [] (py_replace [NBSP] [] s)))"

text \<open>Lines 64--68: join the cleaned blocks with blank lines, then collapse
  quadruple line breaks once.\<close>

definition article_copy :: "string list \<Rightarrow> string" where
  "article_copy sections =
     py_replace quad_break para_break (py_join para_break (map clean_section sections))"

text \<open>Line 95: \<open>f"<b>{article_title}</b>\n\n{article_copy}"\<close>.\<close>

definition build_review :: "string \<Rightarrow> string \<Rightarrow> string" where
  "build_review article_title copy = ''<b>'' @ article_title @ ''</b>'' @ para_break @ copy"

section \<open>The marker injection of the spec\<close>

text \<open>Spec, section 4.4, step 1: one scan that writes a boundary marker (the
  carriage return) immediately before every opening \<open><i>\<close> and immediately after
  every closing \<open></i>\<close>, copying every other character.\<close>

function wrap_italics :: "string \<Rightarrow> string" where
  "wrap_italics [] = []"
| "wrap_italics (c # cs) =
     (if prefix ''<i>'' (c # cs) then CR # ''<i>'' @ wrap_italics (drop 3 (c # cs))
      else if prefix ''</i>'' (c # cs) then ''</i>'' @ CR # wrap_italics (drop 4 (c # cs))
      else c # wrap_italics cs)"
  by pat_completeness auto
termination
  by (relation "measure length") auto

text \<open>The first of the code's two passes.\<close>

abbreviation open_mark :: "string \<Rightarrow> string" where
  "open_mark \<equiv> py_replace_from ''<i>'' (CR # ''<i>'')"

section \<open>Lemmas\<close>

text \<open>The first pass neither creates nor destroys a prefix that holds no carriage
  return and no \<open><\<close>, nor a leading \<open></i>\<close>: the second pass sees the closing
  tags of the original text.\<close>

lemma open_mark_prefix_plain:
  assumes "\<forall>x\<in>set p. x \<noteq> CR \<and> x \<noteq> CHR ''<''"
  shows "prefix p (open_mark s) \<longleftrightarrow> prefix p s"
  using assms
proof (induction p arbitrary: s)
  case (Cons x p)
  show ?case
  proof (cases s)
    case (Cons y ys)
    show ?thesis
    proof (cases "prefix ''<i>'' s")
      case True
      with Cons Cons.prems show ?thesis by auto
    next
      case False
      with Cons Cons.IH [of ys] Cons.prems show ?thesis by auto
    qed
  qed simp
qed simp

lemma open_mark_prefix_close: "prefix ''</i>'' (open_mark s) \<longleftrightarrow> prefix ''</i>'' s"
proof (cases s)
  case (Cons y ys)
  show ?thesis
  proof (cases "prefix ''<i>'' s")
    case False
    with Cons open_mark_prefix_plain [of "''/i>''" ys] show ?thesis by auto
  next
    case True
    with Cons have "\<not> prefix ''/i>'' ys" by (cases ys) auto
    with True Cons show ?thesis by auto
  qed
qed simp

lemma inject_italics_eq:
  "inject_italics s = py_replace_from ''</i>'' (''</i>'' @ [CR]) (open_mark s)"
  by (simp add: inject_italics_def py_replace_def)


lemma set_py_strip: "set (py_strip s) \<subseteq> set s"
  unfolding py_strip_def
  by (metis dual_order.trans set_dropWhileD set_rev subsetI)

lemma set_py_join: "set (py_join sep ws) \<subseteq> \<Union> (set ` set ws) \<union> set sep"
  by (induction sep ws rule: py_join.induct) auto

lemma py_replace_from_no_head:
  "old \<noteq> [] \<Longrightarrow> hd old \<notin> set w \<Longrightarrow> py_replace_from old new w = w"
  using py_replace_from_append_no_head [of old w new "[]"] by simp

text \<open>Replacing a one-character separator of a join by \<open>new\<close> re-joins with
  \<open>new\<close>, when no part contains the separator.\<close>

lemma py_replace_from_join_single:
  "\<forall>p\<in>set ps. a \<notin> set p \<Longrightarrow> py_replace_from [a] new (py_join [a] ps) = py_join new ps"
proof (induction "[a]" ps rule: py_join.induct)
  case (2 w)
  then show ?case by (simp add: py_replace_from_single_notin)
next
  case (3 w v ws)
  then have "py_replace_from [a] new (w @ [a] @ py_join [a] (v # ws)) =
      w @ py_replace_from [a] new ([a] @ py_join [a] (v # ws))"
    by (simp add: py_replace_from_append_no_head)
  with 3 show ?case by simp
qed simp

lemma py_replace_from_quad_step:
  "c \<noteq> LF \<Longrightarrow>
     py_replace_from quad_break new (LF # LF # c # r) = LF # LF # py_replace_from quad_break new (c # r)"
  by simp

text \<open>A join of non-empty parts without newlines holds no quadruple break, so the
  final collapse leaves it unchanged.\<close>

lemma py_replace_from_quad_join:
  "\<forall>w\<in>set ws. w \<noteq> [] \<and> LF \<notin> set w \<Longrightarrow>
     py_replace_from quad_break new (py_join para_break ws) = py_join para_break ws"
proof (induction para_break ws rule: py_join.induct)
  case (2 w)
  then show ?case by (simp add: py_replace_from_no_head)
next
  case (3 w v ws)
  then obtain c v' where v: "v = c # v'" and c: "c \<noteq> LF"
    by (cases v) auto
  from 3 have "py_replace_from quad_break new (w @ para_break @ py_join para_break (v # ws)) =
      w @ py_replace_from quad_break new (para_break @ py_join para_break (v # ws))"
    by (simp add: py_replace_from_append_no_head)
  also have "\<dots> = w @ para_break @ py_replace_from quad_break new (py_join para_break (v # ws))"
    using c by (simp add: v py_replace_from_quad_step del: py_replace_from.simps)
  also have "\<dots> = w @ para_break @ py_join para_break (v # ws)"
    using 3 by simp
  finally show ?case by simp
qed simp

lemma clean_section_plain:
  "CR \<notin> set s \<Longrightarrow> LF \<notin> set s \<Longrightarrow> NBSP \<notin> set s \<Longrightarrow> clean_section s = py_strip s"
  by (simp add: clean_section_def py_replace_from_single_notin)

lemma set_clean_section: "set (clean_section s) \<subseteq> set s - {CR, NBSP} \<union> {LF}"
proof -
  let ?a = "py_replace_from [NBSP] [] s"
  let ?b = "py_replace_from [LF] [] ?a"
  let ?c = "py_replace_from [CR] para_break ?b"
  have a: "set ?a \<subseteq> set s - {NBSP}"
    using set_py_replace_from [of "[NBSP]" "[]" s] py_replace_from_single_removes [of NBSP "[]" s]
    by auto
  have b: "set ?b \<subseteq> set ?a"
    using set_py_replace_from [of "[LF]" "[]" ?a] by simp
  have c: "set ?c \<subseteq> set ?b - {CR} \<union> {LF}"
    using set_py_replace_from [of "[CR]" para_break ?b] py_replace_from_single_removes [of CR para_break ?b]
    by auto
  have "set (clean_section s) \<subseteq> set ?c"
    by (simp add: clean_section_def set_py_strip)
  with a b c show ?thesis by auto
qed

section \<open>Properties\<close>

text \<open>C5. On clean blocks (no carriage returns, newlines or no-break spaces, and
  not blank) the reconstruction is the identity up to trimming: the result is the
  stripped blocks joined by blank lines.\<close>

theorem article_copy_clean_input:
  assumes "\<forall>s\<in>set ss. CR \<notin> set s \<and> LF \<notin> set s \<and> NBSP \<notin> set s \<and> py_strip s \<noteq> []"
  shows "article_copy ss = py_join para_break (map py_strip ss)"
proof -
  have m: "map clean_section ss = map py_strip ss"
    using assms by (simp add: clean_section_plain)
  have "\<forall>w\<in>set (map py_strip ss). w \<noteq> [] \<and> LF \<notin> set w"
    using assms set_py_strip by fastforce
  then show ?thesis
    unfolding article_copy_def m by (simp add: py_replace_from_quad_join)
qed

theorem article_copy_clean_input_witness:
  "article_copy [''Intro text.'', '' Second block. ''] = ''Intro text.'' @ para_break @ ''Second block.''"
proof -
  have h: "\<forall>s\<in>set [''Intro text.'', '' Second block. '']. CR \<notin> set s \<and> LF \<notin> set s \<and>
      NBSP \<notin> set s \<and> py_strip s \<noteq> []"
    by (simp add: py_strip_def py_isspace_def)
  show ?thesis
    using article_copy_clean_input [OF h] by (simp add: py_strip_def py_isspace_def)
qed

text \<open>C6. Inside one block, every injected carriage return becomes a blank line:
  a block whose text is the parts \<open>ps\<close> separated by the markers cleans to the
  parts separated by blank lines, so an emphasised run becomes a paragraph of its
  own.\<close>

theorem clean_section_paragraphs:
  assumes "\<forall>p\<in>set ps. CR \<notin> set p \<and> LF \<notin> set p \<and> NBSP \<notin> set p"
  shows "clean_section (py_join [CR] ps) = py_strip (py_join para_break ps)"
proof -
  have "NBSP \<notin> set (py_join [CR] ps)" and "LF \<notin> set (py_join [CR] ps)"
    using assms set_py_join [of "[CR]" ps] by auto
  then show ?thesis
    using assms by (simp add: clean_section_def py_replace_from_single_notin
        py_replace_from_join_single)
qed

theorem clean_section_paragraphs_witness:
  "clean_section (''Intro '' @ [CR] @ ''note'' @ [CR] @ '' text.'') =
     ''Intro '' @ para_break @ ''note'' @ para_break @ '' text.''"
proof -
  have h: "\<forall>p\<in>set [''Intro '', ''note'', '' text.'']. CR \<notin> set p \<and> LF \<notin> set p \<and> NBSP \<notin> set p"
    by simp
  have "clean_section (py_join [CR] [''Intro '', ''note'', '' text.'']) =
      py_strip (py_join para_break [''Intro '', ''note'', '' text.''])"
    by (rule clean_section_paragraphs [OF h])
  then show ?thesis
    by (simp add: py_strip_def py_isspace_def)
qed

text \<open>C7. The reconstructed body holds no carriage return and no no-break space:
  every injected marker is turned into a line break.\<close>

theorem article_copy_no_markers:
  "CR \<notin> set (article_copy ss) \<and> NBSP \<notin> set (article_copy ss)"
proof -
  let ?j = "py_join para_break (map clean_section ss)"
  have "set ?j \<subseteq> \<Union> (set ` set (map clean_section ss)) \<union> {LF}"
    using set_py_join [of para_break "map clean_section ss"] by simp
  then have "CR \<notin> set ?j \<and> NBSP \<notin> set ?j"
    using set_clean_section by fastforce
  moreover have "set (article_copy ss) \<subseteq> set ?j \<union> {LF}"
    using set_py_replace_from [of quad_break para_break ?j] by (simp add: article_copy_def)
  ultimately show ?thesis by auto
qed

text \<open>C8. The single collapse pass does not remove every quadruple line break:
  two consecutive blank blocks between two clean paragraphs leave one, contrary to
  the spec's promise of no quadruple breaks.\<close>

theorem article_copy_quadruple_survives:
  assumes "a \<noteq> []" "b \<noteq> []" "\<forall>s\<in>{a, b}. CR \<notin> set s \<and> LF \<notin> set s \<and> NBSP \<notin> set s"
    and "py_strip a = a" "py_strip b = b"
  shows "article_copy [a, [], [], b] = a @ quad_break @ b"
proof -
  obtain c b' where b: "b = c # b'" and c: "c \<noteq> LF"
    using assms(2,3) by (cases b) auto
  have e: "clean_section [] = []"
    by (simp add: clean_section_def py_strip_def)
  have "article_copy [a, [], [], b] =
      py_replace_from quad_break para_break (a @ LF # LF # LF # LF # LF # LF # b)"
    using assms by (simp add: article_copy_def clean_section_plain e)
  also have "\<dots> = a @ py_replace_from quad_break para_break (LF # LF # LF # LF # LF # LF # b)"
    using assms by (simp add: py_replace_from_append_no_head del: py_replace_from.simps)
  also have "\<dots> = a @ para_break @ py_replace_from quad_break para_break (LF # LF # b)"
    by simp
  also have "\<dots> = a @ quad_break @ b"
    using assms c by (simp add: b py_replace_from_quad_step py_replace_from_no_head
        del: py_replace_from.simps)
  finally show ?thesis by simp
qed

theorem article_copy_quadruple_survives_witness:
  "article_copy [''a'', [], [], ''b''] = ''a'' @ quad_break @ ''b''"
  by (rule article_copy_quadruple_survives) (simp_all add: py_strip_def py_isspace_def)

text \<open>C9. The code's two sequential \<open>replace\<close> passes implement the spec's
  single marker scan: a carriage return lands immediately before every \<open><i>\<close>
  and immediately after every \<open></i>\<close> of the original markup, and nowhere else.
  The second pass cannot see a tag the first created or lose one it moved, because
  the two tags cannot overlap.\<close>

theorem inject_italics_wrap: "inject_italics s = wrap_italics s"
proof (induction s rule: wrap_italics.induct)
  case (2 c cs)
  show ?case
  proof (cases "prefix ''<i>'' (c # cs)")
    case True
    then obtain t where "c # cs = ''<i>'' @ t" by (auto simp: prefix_def)
    then show ?thesis using 2 by (simp add: inject_italics_def py_replace_def)
  next
    case o: False
    show ?thesis
    proof (cases "prefix ''</i>'' (c # cs)")
      case True
      then obtain t where "c # cs = ''</i>'' @ t" by (auto simp: prefix_def)
      then show ?thesis using 2 by (simp add: inject_italics_def py_replace_def)
    next
      case False
      have o1: "open_mark (c # cs) = c # open_mark cs"
        using o by (rule py_replace_from_skip)
      have "\<not> prefix ''</i>'' (c # open_mark cs)"
        using False open_mark_prefix_close [of "c # cs"] o1 by simp
      then have "inject_italics (c # cs) = c # inject_italics cs"
        unfolding inject_italics_eq o1 by (rule py_replace_from_skip)
      moreover have "wrap_italics (c # cs) = c # wrap_italics cs"
        by (simp only: wrap_italics.simps o False if_False)
      ultimately show ?thesis
        using "2.IH"(3) [OF o False] by simp
    qed
  qed
qed (simp add: inject_italics_def py_replace_def)

end
