(* ===== verification/Dates.thy ===== *)
theory Dates
  imports PyStr
begin

text \<open>
  Date normalisation, line 92 of \<^verbatim>\<open>src/src/scrape.py\<close>:
  \<open>datetime.datetime.strptime(dateline, "%B %d, %Y").strftime("%Y-%m-%d")\<close>.
  CPython's \<open>_strptime\<close> compiles the format to the regular expression
  \<open>(?P<B>september|february|...|may)\s+(?P<d>3[0-1]|[1-2]\d|0[1-9]|[1-9]| [1-9]),\s+(?P<Y>\d\d\d\d)\<close>
  (case-insensitive; the format's spaces become \<open>\s+\<close>; month names ordered by
  decreasing length, stable), takes the first match that the backtracking matcher
  finds at the start of the string, raises \<open>ValueError\<close> when there is none or
  when input is left over, converts the groups with \<open>int()\<close> and builds a
  \<open>datetime\<close>, which raises \<open>ValueError\<close> for an impossible date.
  The matcher is modelled by parsers that return every match in the order the
  backtracking engine tries them (\<open>'a rx\<close>), so the first element is the match
  Python reports. \<open>strftime("%Y-%m-%d")\<close> zero-pads all three fields (CPython
  normalises \<open>%Y\<close> to four digits). \<open>None\<close> (no dateline element) raises
  \<open>TypeError\<close>.
\<close>

section \<open>Backtracking matcher\<close>

type_synonym 'a rx = "string \<Rightarrow> ('a \<times> string) list"

definition rx_ret :: "'a \<Rightarrow> 'a rx" where
  "rx_ret a s = [(a, s)]"

definition rx_bind :: "'a rx \<Rightarrow> ('a \<Rightarrow> 'b rx) \<Rightarrow> 'b rx" where
  "rx_bind p q s = concat (map (\<lambda>(a, r). q a r) (p s))"

definition rx_alt :: "'a rx list \<Rightarrow> 'a rx" where
  "rx_alt ps s = concat (map (\<lambda>p. p s) ps)"

definition rx_char :: "(char \<Rightarrow> bool) \<Rightarrow> char rx" where
  "rx_char P s = (case s of [] \<Rightarrow> [] | c # r \<Rightarrow> if P c then [(c, r)] else [])"

definition rx_ws_plus :: "string rx" where
  "rx_ws_plus s =
     (let k = length (takeWhile py_isspace s)
      in map (\<lambda>i. (take i s, drop i s)) (rev [1..<Suc k]))"

definition ascii_lower :: "char \<Rightarrow> char" where
  "ascii_lower c =
     (if 65 \<le> (of_char c :: nat) \<and> (of_char c :: nat) \<le> 90 then char_of (of_char c + (32 :: nat)) else c)"

definition rx_word_ci :: "string \<Rightarrow> unit rx" where
  "rx_word_ci w s = (if map ascii_lower (take (length w) s) = w then [((), drop (length w) s)] else [])"

definition month_alternatives :: "(string \<times> nat) list" where
  "month_alternatives =
     [(''september'', 9), (''february'', 2), (''november'', 11), (''december'', 12),
      (''january'', 1), (''october'', 10), (''august'', 8), (''march'', 3),
      (''april'', 4), (''june'', 6), (''july'', 7), (''may'', 5)]"

definition rx_month :: "nat rx" where
  "rx_month = rx_alt (map (\<lambda>(w, m). rx_bind (rx_word_ci w) (\<lambda>_. rx_ret m)) month_alternatives)"

definition rx_chars2 :: "(char \<Rightarrow> bool) \<Rightarrow> (char \<Rightarrow> bool) \<Rightarrow> string rx" where
  "rx_chars2 P Q = rx_bind (rx_char P) (\<lambda>a. rx_bind (rx_char Q) (\<lambda>b. rx_ret [a, b]))"

definition rx_chars1 :: "(char \<Rightarrow> bool) \<Rightarrow> string rx" where
  "rx_chars1 P = rx_bind (rx_char P) (\<lambda>a. rx_ret [a])"

definition in_range :: "char \<Rightarrow> char \<Rightarrow> char \<Rightarrow> bool" where
  "in_range lo hi c \<longleftrightarrow> (of_char lo :: nat) \<le> of_char c \<and> (of_char c :: nat) \<le> of_char hi"

definition rx_day :: "string rx" where
  "rx_day = rx_alt
     [rx_chars2 (\<lambda>c. c = CHR ''3'') (in_range (CHR ''0'') (CHR ''1'')),
      rx_chars2 (in_range (CHR ''1'') (CHR ''2'')) is_digit,
      rx_chars2 (\<lambda>c. c = CHR ''0'') (in_range (CHR ''1'') (CHR ''9'')),
      rx_chars1 (in_range (CHR ''1'') (CHR ''9'')),
      rx_chars2 (\<lambda>c. c = CHR '' '') (in_range (CHR ''1'') (CHR ''9''))]"

definition rx_year :: "string rx" where
  "rx_year = rx_bind (rx_chars2 is_digit is_digit) (\<lambda>a. rx_bind (rx_chars2 is_digit is_digit) (\<lambda>b. rx_ret (a @ b)))"

definition rx_date :: "(nat \<times> string \<times> string) rx" where
  "rx_date =
     rx_bind rx_month (\<lambda>m. rx_bind rx_ws_plus (\<lambda>_. rx_bind rx_day (\<lambda>d.
       rx_bind (rx_char (\<lambda>c. c = CHR '','')) (\<lambda>_. rx_bind rx_ws_plus (\<lambda>_.
         rx_bind rx_year (\<lambda>y. rx_ret (m, d, y)))))))"

section \<open>Calendar and conversion\<close>

definition is_leap_year :: "nat \<Rightarrow> bool" where
  "is_leap_year y \<longleftrightarrow> 4 dvd y \<and> (\<not> 100 dvd y \<or> 400 dvd y)"

definition days_in_month :: "nat \<Rightarrow> nat \<Rightarrow> nat" where
  "days_in_month y m =
     (if m = 2 then (if is_leap_year y then 29 else 28)
      else if m = 4 \<or> m = 6 \<or> m = 9 \<or> m = 11 then 30 else 31)"

text \<open>The checks of the \<open>datetime\<close> constructor (\<open>MINYEAR = 1\<close>,
  \<open>MAXYEAR = 9999\<close>).\<close>

definition valid_date :: "nat \<Rightarrow> nat \<Rightarrow> nat \<Rightarrow> bool" where
  "valid_date y m d \<longleftrightarrow>
     1 \<le> y \<and> y \<le> 9999 \<and> 1 \<le> m \<and> m \<le> 12 \<and> 1 \<le> d \<and> d \<le> days_in_month y m"

text \<open>\<open>int(group)\<close>: \<open>int()\<close> accepts surrounding whitespace (the
  \<open>" [1-9]"\<close> day alternative).\<close>

definition py_int_str :: "string \<Rightarrow> nat" where
  "py_int_str s = py_int_digits (py_strip s)"

definition strptime_date :: "string \<Rightarrow> (nat \<times> nat \<times> nat) py_result" where
  "strptime_date s =
     (case rx_date s of
        [] \<Rightarrow> Inl ValueError
      | ((m, d, y), rest) # _ \<Rightarrow>
          if rest \<noteq> [] then Inl ValueError
          else (let year = py_int_str y; day = py_int_str d
                in if valid_date year m day then Inr (year, m, day) else Inl ValueError))"

definition strftime_iso :: "nat \<times> nat \<times> nat \<Rightarrow> string" where
  "strftime_iso ymd =
     (case ymd of (y, m, d) \<Rightarrow>
        zfill 4 (py_str_nat y) @ ''-'' @ zfill 2 (py_str_nat m) @ ''-'' @ zfill 2 (py_str_nat d))"

text \<open>The shape of an ISO date \<open>YYYY-MM-DD\<close>, as an executable test.\<close>

definition iso_date :: "string \<Rightarrow> bool" where
  "iso_date s \<longleftrightarrow> length s = 10 \<and> s ! 4 = CHR ''-'' \<and> s ! 7 = CHR ''-'' \<and>
     list_all is_digit (take 4 s @ take 2 (drop 5 s) @ drop 8 s)"

section \<open>The code\<close>

text \<open>Line 92, with \<open>dateline\<close> the optional first text of the dateline element.\<close>

definition reformat_date :: "string option \<Rightarrow> string py_result" where
  "reformat_date dateline =
     (case dateline of
        None \<Rightarrow> Inl TypeError
      | Some s \<Rightarrow> (case strptime_date s of Inl e \<Rightarrow> Inl e | Inr ymd \<Rightarrow> Inr (strftime_iso ymd)))"

section \<open>The site's dateline format\<close>

definition month_name :: "nat \<Rightarrow> string" where
  "month_name m =
     [''January'', ''February'', ''March'', ''April'', ''May'', ''June'', ''July'',
      ''August'', ''September'', ''October'', ''November'', ''December''] ! (m - 1)"

text \<open>"Month D, YYYY" as the review pages print it.\<close>

definition english_date :: "nat \<Rightarrow> nat \<Rightarrow> nat \<Rightarrow> string" where
  "english_date y m d = month_name m @ '' '' @ py_str_nat d @ '', '' @ zfill 4 (py_str_nat y)"

section \<open>Lemmas\<close>

lemmas rx_simps = rx_ret_def rx_bind_def rx_alt_def rx_char_def rx_chars1_def rx_chars2_def

lemma month_cases:
  "1 \<le> m \<Longrightarrow> m \<le> 12 \<Longrightarrow>
     m = 1 \<or> m = 2 \<or> m = 3 \<or> m = 4 \<or> m = 5 \<or> m = 6 \<or> m = 7 \<or> m = 8 \<or>
     m = 9 \<or> m = 10 \<or> m = 11 \<or> m = (12::nat)"
  by presburger

lemma rx_month_name:
  assumes "1 \<le> m" "m \<le> 12"
  shows "rx_month (month_name m @ CHR '' '' # r) = [(m, CHR '' '' # r)]"
  using month_cases [OF assms]
  by (elim disjE) (simp_all add: rx_month_def month_alternatives_def month_name_def rx_simps
        rx_word_ci_def ascii_lower_def char_of_eq_iff)

lemma rx_ws_plus_single:
  "\<not> py_isspace c \<Longrightarrow> rx_ws_plus (CHR '' '' # c # r) = [('' '', c # r)]"
  by (simp add: rx_ws_plus_def py_isspace_def)

lemma rx_bind_single: "p s = [(a, r)] \<Longrightarrow> rx_bind p q s = q a r"
  by (simp add: rx_bind_def)

lemma day_cases:
  "1 \<le> d \<Longrightarrow> d \<le> 31 \<Longrightarrow>
     d = 1 \<or> d = 2 \<or> d = 3 \<or> d = 4 \<or> d = 5 \<or> d = 6 \<or> d = 7 \<or> d = 8 \<or> d = 9 \<or> d = 10 \<or> d = 11 \<or> d = 12 \<or> d = 13 \<or> d = 14 \<or> d = 15 \<or> d = 16 \<or> d = 17 \<or> d = 18 \<or> d = 19 \<or> d = 20 \<or> d = 21 \<or> d = 22 \<or> d = 23 \<or> d = 24 \<or> d = 25 \<or> d = 26 \<or> d = 27 \<or> d = 28 \<or> d = 29 \<or> d = 30 \<or> d = (31::nat)"
  by presburger

lemma rx_day_comma:
  assumes "1 \<le> d" "d \<le> 31"
  shows "rx_bind rx_day (\<lambda>ds. rx_bind (rx_char (\<lambda>c. c = CHR '','')) (K ds)) (py_str_nat d @ CHR '','' # r)
    = K (py_str_nat d) (CHR '','') r"
  using day_cases [OF assms]
  by (elim disjE) (simp_all add: py_str_nat.simps digit_char_def rx_day_def rx_simps in_range_def
      is_digit_def char_of_eq_iff)

lemma rx_bind_month_name:
  "1 \<le> m \<Longrightarrow> m \<le> 12 \<Longrightarrow>
     rx_bind rx_month q (month_name m @ CHR '' '' # r) = q m (CHR '' '' # r)"
  by (simp add: rx_bind_single rx_month_name)

lemma rx_bind_ws_single:
  "s \<noteq> [] \<Longrightarrow> \<not> py_isspace (hd s) \<Longrightarrow> rx_bind rx_ws_plus q (CHR '' '' # s) = q '' '' s"
  by (cases s) (simp_all add: rx_bind_single rx_ws_plus_single)

lemma is_digit_not_space: "is_digit c \<Longrightarrow> \<not> py_isspace c"
  by (auto simp: is_digit_def py_isspace_def Let_def)

lemma rx_bind_year_digits:
  assumes "length s = 4" "\<forall>c\<in>set s. is_digit c"
  shows "rx_bind rx_year q (s @ r) = q s r"
proof -
  from assms(1) obtain a b c e where s: "s = [a, b, c, e]"
    by (auto simp: numeral_eq_Suc length_Suc_conv)
  from assms(2) s have "rx_year (s @ r) = [(s, r)]"
    by (simp add: rx_year_def rx_simps)
  then show ?thesis by (rule rx_bind_single)
qed

lemma zfill_digits: "c \<in> set (zfill k (py_str_nat n)) \<Longrightarrow> is_digit c"
  by (auto simp: zfill_def is_digit_def dest: py_str_nat_digits)

lemma length_zfill_year: "y \<le> 9999 \<Longrightarrow> length (zfill 4 (py_str_nat y)) = 4"
  using length_py_str_nat_le [of y 4] by (simp add: length_zfill)

lemma py_int_digits_zeros: "py_int_digits (replicate k (CHR ''0'') @ s) = py_int_digits s"
  by (induction k) (simp_all add: py_int_digits_def digit_val_def)

lemma py_strip_digits: "\<forall>c\<in>set s. is_digit c \<Longrightarrow> py_strip s = s"
  by (simp add: py_strip_def dropWhile_all_not is_digit_not_space)

lemma py_int_str_py_str_nat: "py_int_str (py_str_nat d) = d"
  by (simp add: py_int_str_def py_strip_digits py_str_nat_digits)

lemma py_int_str_zfill: "py_int_str (zfill k (py_str_nat y)) = y"
proof -
  have "py_strip (zfill k (py_str_nat y)) = zfill k (py_str_nat y)"
    using zfill_digits by (blast intro: py_strip_digits)
  then show ?thesis
    by (simp add: py_int_str_def zfill_def py_int_digits_zeros)
qed

lemma py_str_nat_hd_not_space: "\<not> py_isspace (hd (py_str_nat d))"
  using py_str_nat_digits [of "hd (py_str_nat d)" d] is_digit_not_space by simp

lemma rx_date_english:
  assumes m: "1 \<le> m" "m \<le> 12" and d: "1 \<le> d" "d \<le> 31" and y: "y \<le> 9999"
  shows "rx_date (english_date y m d) = [((m, py_str_nat d, zfill 4 (py_str_nat y)), [])]"
proof -
  let ?Y = "zfill 4 (py_str_nat y)"
  have Y4: "length ?Y = 4" and Yd: "\<forall>c\<in>set ?Y. is_digit c"
    using length_zfill_year [OF y] zfill_digits by auto
  then have Yne: "?Y \<noteq> []"
    by auto
  then have "hd ?Y \<in> set ?Y"
    by (rule hd_in_set)
  then have Yh: "\<not> py_isspace (hd ?Y)"
    using Yd is_digit_not_space by blast
  have e: "english_date y m d =
      month_name m @ CHR '' '' # py_str_nat d @ CHR '','' # CHR '' '' # ?Y"
    by (simp add: english_date_def)
  have day: "rx_bind rx_day (\<lambda>dd. rx_bind (rx_char (\<lambda>c. c = CHR '',''))
        (\<lambda>_. rx_bind rx_ws_plus (\<lambda>_. rx_bind rx_year (\<lambda>yy. rx_ret (m, dd, yy)))))
        (py_str_nat d @ CHR '','' # CHR '' '' # ?Y) =
      rx_bind rx_ws_plus (\<lambda>_. rx_bind rx_year (\<lambda>yy. rx_ret (m, py_str_nat d, yy))) (CHR '' '' # ?Y)"
    by (rule rx_day_comma [OF d])
  have year: "rx_bind rx_year (\<lambda>yy. rx_ret (m, py_str_nat d, yy)) ?Y = [((m, py_str_nat d, ?Y), [])]"
    using rx_bind_year_digits [OF Y4 Yd, of "\<lambda>yy. rx_ret (m, py_str_nat d, yy)" "[]"]
    by (simp add: rx_ret_def)
  have "rx_date (english_date y m d) =
      rx_bind rx_day (\<lambda>dd. rx_bind (rx_char (\<lambda>c. c = CHR '',''))
        (\<lambda>_. rx_bind rx_ws_plus (\<lambda>_. rx_bind rx_year (\<lambda>yy. rx_ret (m, dd, yy)))))
        (py_str_nat d @ CHR '','' # CHR '' '' # ?Y)"
    unfolding rx_date_def e
    using m by (simp add: rx_bind_month_name rx_bind_ws_single py_str_nat_hd_not_space)
  also have "\<dots> = [((m, py_str_nat d, ?Y), [])]"
    unfolding day using Yne Yh year by (simp add: rx_bind_ws_single)
  finally show ?thesis .
qed

lemma strptime_english_date:
  assumes "valid_date y m d"
  shows "strptime_date (english_date y m d) = Inr (y, m, d)"
proof -
  have "days_in_month y m \<le> 31"
    by (simp add: days_in_month_def)
  with assms have "rx_date (english_date y m d) = [((m, py_str_nat d, zfill 4 (py_str_nat y)), [])]"
    by (simp add: valid_date_def rx_date_english)
  with assms show ?thesis
    by (simp add: strptime_date_def py_int_str_py_str_nat py_int_str_zfill)
qed

lemma rx_bind_mem:
  "(b, r) \<in> set (rx_bind p q s) \<longleftrightarrow> (\<exists>a r1. (a, r1) \<in> set (p s) \<and> (b, r) \<in> set (q a r1))"
  by (force simp: rx_bind_def)

lemma rx_ret_mem [simp]: "(b, r) \<in> set (rx_ret a s) \<longleftrightarrow> b = a \<and> r = s"
  by (simp add: rx_ret_def)

lemma rx_char_mem: "(c, r) \<in> set (rx_char P s) \<longleftrightarrow> s = c # r \<and> P c"
  by (auto simp: rx_char_def split: list.splits)

lemma rx_alt_mem: "(a, r) \<in> set (rx_alt ps s) \<longleftrightarrow> (\<exists>p\<in>set ps. (a, r) \<in> set (p s))"
  by (auto simp: rx_alt_def)

lemma rx_ws_plus_suffix: "(w, r) \<in> set (rx_ws_plus s) \<Longrightarrow> suffix r s"
  by (auto simp: rx_ws_plus_def Let_def suffix_drop)

lemma rx_month_suffix: "(m, r) \<in> set (rx_month s) \<Longrightarrow> suffix r s"
  by (auto simp: rx_month_def rx_alt_mem rx_bind_mem rx_word_ci_def suffix_drop
      split: if_splits)

lemma rx_chars_suffix:
  "(w, r) \<in> set (rx_chars2 P Q s) \<Longrightarrow> suffix r s"
  "(w, r) \<in> set (rx_chars1 P s) \<Longrightarrow> suffix r s"
  by (auto simp: rx_chars2_def rx_chars1_def rx_bind_mem rx_char_mem suffix_def)

lemma rx_day_suffix: "(w, r) \<in> set (rx_day s) \<Longrightarrow> suffix r s"
  by (auto simp: rx_day_def rx_alt_mem dest: rx_chars_suffix)

lemma rx_year_mem:
  "(y, r) \<in> set (rx_year s) \<Longrightarrow> s = y @ r \<and> y \<noteq> [] \<and> (\<forall>c\<in>set y. is_digit c)"
  by (auto simp: rx_year_def rx_chars2_def rx_bind_mem rx_char_mem)

lemma rx_date_mem:
  "(v, r) \<in> set (rx_date s) \<Longrightarrow> \<exists>p y. s = p @ y @ r \<and> y \<noteq> [] \<and> (\<forall>c\<in>set y. is_digit c)"
  unfolding rx_date_def
  by (auto simp: rx_bind_mem rx_char_mem suffix_def dest!: rx_month_suffix rx_ws_plus_suffix
      rx_day_suffix rx_year_mem) (metis append.assoc append_Cons)

lemma ascii_lower_space: "py_isspace c \<Longrightarrow> ascii_lower c = c"
  by (auto simp: ascii_lower_def py_isspace_def Let_def)

lemma rx_month_space: "py_isspace c \<Longrightarrow> rx_month (c # s) = []"
  by (auto simp: rx_month_def month_alternatives_def rx_simps rx_word_ci_def ascii_lower_space
      py_isspace_def)

lemma strptime_date_space_first: "py_isspace c \<Longrightarrow> strptime_date (c # s) = Inl ValueError"
  by (simp add: strptime_date_def rx_date_def rx_bind_def rx_month_space)

lemma strptime_date_space_last: "py_isspace c \<Longrightarrow> strptime_date (s @ [c]) = Inl ValueError"
proof (cases "rx_date (s @ [c])")
  case Nil
  then show ?thesis by (simp add: strptime_date_def)
next
  case (Cons x xs)
  obtain m d y rest where x: "x = ((m, d, y), rest)"
    by (cases x) auto
  assume sp: "py_isspace c"
  have "rest \<noteq> []"
  proof
    assume "rest = []"
    with Cons x obtain p yy where "s @ [c] = p @ yy" "yy \<noteq> []" "\<forall>c\<in>set yy. is_digit c"
      using rx_date_mem [of "(m, d, y)" rest "s @ [c]"] by auto
    then have "is_digit c"
      by (metis last_appendR last_in_set last_snoc)
    with sp show False
      using is_digit_not_space by blast
  qed
  with Cons x show ?thesis
    by (simp add: strptime_date_def)
qed

lemma strptime_date_valid:
  "strptime_date s = Inr ymd \<Longrightarrow> \<exists>y m d. ymd = (y, m, d) \<and> valid_date y m d"
  by (auto simp: strptime_date_def Let_def split: list.splits prod.splits if_splits)

lemma strftime_iso_shape:
  assumes "valid_date y m d"
  shows "\<exists>Y M D. strftime_iso (y, m, d) = Y @ ''-'' @ M @ ''-'' @ D \<and>
    length Y = 4 \<and> length M = 2 \<and> length D = 2 \<and> (\<forall>c\<in>set (Y @ M @ D). is_digit c)"
proof -
  have "days_in_month y m \<le> 31"
    by (simp add: days_in_month_def)
  with assms have "y < 10 ^ 4" "m < 10 ^ 2" "d < 10 ^ 2"
    by (auto simp: valid_date_def)
  then have "length (zfill 4 (py_str_nat y)) = 4" "length (zfill 2 (py_str_nat m)) = 2"
      "length (zfill 2 (py_str_nat d)) = 2"
    by (simp_all add: length_zfill length_py_str_nat_le)
  then show ?thesis
    by (auto simp: strftime_iso_def dest: zfill_digits)
qed

lemma reformat_date_iso_date:
  assumes "reformat_date d = Inr out"
  shows "iso_date out"
proof -
  from assms obtain s ymd where "strptime_date s = Inr ymd" and o: "out = strftime_iso ymd"
    by (auto simp: reformat_date_def split: option.splits sum.splits)
  from strptime_date_valid [OF this(1)] obtain y m d where "ymd = (y, m, d)" and v: "valid_date y m d"
    by blast
  from strftime_iso_shape [OF v] obtain Y M D where
    sh: "strftime_iso (y, m, d) = Y @ ''-'' @ M @ ''-'' @ D" and
    l: "length Y = 4" "length M = 2" "length D = 2" and dg: "\<forall>c\<in>set (Y @ M @ D). is_digit c"
    by blast
  show ?thesis
    using l dg by (simp add: o \<open>ymd = (y, m, d)\<close> sh iso_date_def nth_append list_all_iff)
qed

section \<open>Properties\<close>

text \<open>C10. Every valid calendar date printed the way the review pages print it
  ("Month D, YYYY") is converted to its ISO 8601 form \<open>YYYY-MM-DD\<close>.\<close>

theorem reformat_date_english:
  assumes "valid_date y m d"
  shows "reformat_date (Some (english_date y m d)) = Inr (strftime_iso (y, m, d))"
  using assms by (simp add: reformat_date_def strptime_english_date)

theorem reformat_date_english_witness:
  "reformat_date (Some ''April 5, 2002'') = Inr ''2002-04-05''"
proof -
  have v: "valid_date 2002 4 5"
    by (simp add: valid_date_def days_in_month_def)
  have "english_date 2002 4 5 = ''April 5, 2002''"
    by (simp add: english_date_def month_name_def py_str_nat.simps digit_char_def zfill_def char_of_eq_iff)
  moreover have "strftime_iso (2002, 4, 5) = ''2002-04-05''"
    by (simp add: strftime_iso_def py_str_nat.simps digit_char_def zfill_def char_of_eq_iff)
  ultimately show ?thesis
    using reformat_date_english [OF v] by simp
qed

text \<open>C11. The dateline is parsed without trimming: a dateline that starts or
  ends with whitespace is rejected with \<open>ValueError\<close> (the spec says the
  trimmed text of the dateline element is parsed).\<close>

theorem reformat_date_untrimmed:
  assumes "py_isspace c"
  shows "reformat_date (Some (c # s)) = Inl ValueError \<and> reformat_date (Some (s @ [c])) = Inl ValueError"
  using assms by (simp add: reformat_date_def strptime_date_space_first strptime_date_space_last)

theorem reformat_date_untrimmed_witness:
  "reformat_date (Some ('' '' @ ''April 5, 2002'')) = Inl ValueError \<and>
   reformat_date (Some (''April 5, 2002'' @ [LF])) = Inl ValueError"
proof -
  have "py_isspace (CHR '' '')" and "py_isspace LF"
    by (simp_all add: py_isspace_def)
  then show ?thesis
    using reformat_date_untrimmed [of "CHR '' ''" "''April 5, 2002''"]
      reformat_date_untrimmed [of LF "''April 5, 2002''"] by simp
qed

text \<open>C12. A converted date is a valid calendar date printed as
  \<open>YYYY-MM-DD\<close>: four, two and two digits separated by hyphens.\<close>

theorem reformat_date_iso_format:
  assumes "reformat_date (Some s) = Inr out"
  shows "(\<exists>y m d. valid_date y m d \<and> out = strftime_iso (y, m, d)) \<and>
    (\<exists>Y M D. out = Y @ ''-'' @ M @ ''-'' @ D \<and> length Y = 4 \<and> length M = 2 \<and> length D = 2 \<and>
      (\<forall>c\<in>set (Y @ M @ D). is_digit c))"
proof -
  from assms obtain ymd where p: "strptime_date s = Inr ymd" and o: "out = strftime_iso ymd"
    by (auto simp: reformat_date_def split: sum.splits)
  from strptime_date_valid [OF p] obtain y m d where "ymd = (y, m, d)" and v: "valid_date y m d"
    by blast
  with o strftime_iso_shape [OF v] show ?thesis
    by blast
qed

theorem reformat_date_iso_format_witness:
  "(\<exists>y m d. valid_date y m d \<and> ''2002-04-05'' = strftime_iso (y, m, d)) \<and>
    (\<exists>Y M D. ''2002-04-05'' = Y @ ''-'' @ M @ ''-'' @ D \<and> length Y = 4 \<and> length M = 2 \<and>
      length D = 2 \<and> (\<forall>c\<in>set (Y @ M @ D). is_digit c))"
proof -
  have h: "reformat_date (Some ''April 5, 2002'') = Inr ''2002-04-05''"
    by code_simp
  show ?thesis
    by (rule reformat_date_iso_format [OF h])
qed

end
