(* ===== verification/Review.thy ===== *)
theory Review
  imports Rating Article Dates
begin

text \<open>
  The review extractor, \<^verbatim>\<open>RogerEbertSpider.parse_review\<close> (lines 45--104 of
  \<^verbatim>\<open>src/src/scrape.py\<close>), composed from the component models: the TMDB
  identifier from the JustWatch widget of the original document, then, on the
  document re-parsed after the italics markers are injected, the movie title, the
  dateline, the article title and blocks, the "great movie" marker and the star
  rating, and finally the date conversion and the output item. The callback is a
  generator that yields one item; an exception anywhere makes it yield nothing,
  which is the left value of \<open>parse_review\<close>. The HTML parser is a parameter.
\<close>

section \<open>The code\<close>

text \<open>The item the callback yields, one field per dictionary key
  (\<open>tmdbID\<close>, \<open>Title\<close>, \<open>Rating\<close>, \<open>Review\<close>, \<open>WatchedDate\<close>, \<open>Tags\<close>).\<close>

record review_item =
  tmdbID :: "string option"
  Title :: string
  Rating :: "rat option"
  Review :: string
  WatchedDate :: string
  Tags :: "string option"

text \<open>Line 49: \<open>response.xpath('//div[@data-jw-widget]')\<close>.\<close>

definition jw_widget_divs :: "node \<Rightarrow> node list" where
  "jw_widget_divs doc = desc_or_self (\<lambda>n. is_tag ''div'' n \<and> attr n ''data-jw-widget'' \<noteq> None) doc"

text \<open>Lines 48--53: \<open>.attrib\<close> of the selector list is the first widget's
  attributes; a missing \<open>data-id-type\<close> or \<open>data-id\<close> raises \<open>KeyError\<close>.\<close>

definition tmdb_of :: "node \<Rightarrow> string option py_result" where
  "tmdb_of doc =
     (case jw_widget_divs doc of
        [] \<Rightarrow> Inr None
      | widget # _ \<Rightarrow>
          (case py_getitem (attrib widget) ''data-id-type'' of
             Inl e \<Rightarrow> Inl e
           | Inr id_type \<Rightarrow>
               if id_type = ''tmdb''
               then (case py_getitem (attrib widget) ''data-id'' of Inl e \<Rightarrow> Inl e | Inr v \<Rightarrow> Inr (Some v))
               else Inr None))"

text \<open>\<open>.get().strip()\<close>: \<open>None.strip()\<close> raises \<open>AttributeError\<close>.\<close>

definition get_strip :: "string list \<Rightarrow> string py_result" where
  "get_strip xs = (case get_first xs of None \<Rightarrow> Inl AttributeError | Some s \<Rightarrow> Inr (py_strip s))"

text \<open>Lines 45--104, in the order of the source.\<close>

definition parse_review :: "html_parser \<Rightarrow> string \<Rightarrow> review_item py_result" where
  "parse_review parse_html body =
     (case tmdb_of (parse_html body) of
        Inl e \<Rightarrow> Inl e
      | Inr tmdb_id \<Rightarrow>
          (let doc = parse_html (inject_italics body)
           in case get_strip (css_text ''cast-and-crew--movie-title'' doc) of
                Inl e \<Rightarrow> Inl e
              | Inr movie_title \<Rightarrow>
                  (let dateline = get_first (css_text ''time'' doc)
                   in case get_strip (css_text ''page-content--title'' doc) of
                        Inl e \<Rightarrow> Inl e
                      | Inr article_title \<Rightarrow>
                          (let copy = article_copy (article_sections doc);
                               is_great_movie = (css_select ''gm-drop-cap'' doc \<noteq> []);
                               rating = star_rating (star_icons doc)
                           in case reformat_date dateline of
                                Inl e \<Rightarrow> Inl e
                              | Inr reviewed_on \<Rightarrow>
                                  Inr \<lparr>tmdbID = tmdb_id, Title = movie_title, Rating = rating,
                                       Review = build_review article_title copy,
                                       WatchedDate = reviewed_on,
                                       Tags = (if is_great_movie then Some ''great movies'' else None)\<rparr>))))"

section \<open>The shape of an item\<close>

text \<open>What a well-formed item holds (spec, section 3): a trimmed title, a
  rating that is absent or a positive multiple of one half, an ISO date, a review
  text that opens with the bold title, and either no tag or the "great movies"
  tag.\<close>

definition half_step :: "rat option \<Rightarrow> bool" where
  "half_step r = (case r of None \<Rightarrow> True | Some x \<Rightarrow> 1 / 2 \<le> x \<and> 2 * x = of_int \<lfloor>2 * x\<rfloor>)"

definition wf_item :: "review_item \<Rightarrow> bool" where
  "wf_item r \<longleftrightarrow>
     py_strip (Title r) = Title r \<and> half_step (Rating r) \<and> iso_date (WatchedDate r) \<and>
     take 3 (Review r) = ''<b>'' \<and> (Tags r = None \<or> Tags r = Some ''great movies'')"

section \<open>A sample document\<close>

definition sample_review_doc :: node where
  "sample_review_doc =
     Element ''html'' []
      [Element ''div'' [(''data-id-type'', ''tmdb''), (''data-id'', ''180383''), (''data-jw-widget'', '''')] [],
       Element ''h1'' [(''class'', ''cast-and-crew--movie-title'')] [TextNode '' Spirited Away '' ],
       Element ''span'' [(''class'', ''time'')] [TextNode ''April 5, 2002''],
       Element ''h2'' [(''class'', ''page-content--title'')] [TextNode ''A fantasy'' ],
       Element ''div'' [(''class'', ''page-content--block_editor-content'')] [TextNode ''Body.''],
       Element ''div'' [(''class'', ''page-content--star-rating'')]
         [Element ''span'' [] [Element ''i'' [(''title'', ''star-full'')] []]]]"

definition undated_review_doc :: node where
  "undated_review_doc =
     Element ''html'' []
      [Element ''h1'' [(''class'', ''cast-and-crew--movie-title'')] [TextNode ''Vertigo''],
       Element ''h2'' [(''class'', ''page-content--title'')] [TextNode ''A review'']]"

definition bare_widget_doc :: node where
  "bare_widget_doc = Element ''html'' [] [Element ''div'' [(''data-jw-widget'', [])] []]"

section \<open>Lemmas\<close>

lemma get_strip_Inl: "get_strip xs = Inl e \<longleftrightarrow> xs = [] \<and> e = AttributeError"
  by (auto simp: get_strip_def split: list.splits option.splits)

lemma tmdb_of_Inl: "tmdb_of doc = Inl e \<Longrightarrow> e = KeyError"
  by (auto simp: tmdb_of_def split: list.splits sum.splits if_splits)

lemma strptime_date_Inl: "strptime_date s = Inl e \<Longrightarrow> e = ValueError"
  by (auto simp: strptime_date_def Let_def split: list.splits prod.splits if_splits)

lemma reformat_date_Inl: "reformat_date d = Inl e \<Longrightarrow> e = TypeError \<or> e = ValueError"
  by (auto simp: reformat_date_def dest: strptime_date_Inl split: option.splits sum.splits)

lemma parse_review_wf:
  assumes "parse_review P body = Inr r"
  shows "wf_item r"
proof -
  from assms obtain mt ttl where
    t: "Title r = py_strip mt" and rv: "Review r = build_review (py_strip ttl) (article_copy (article_sections (P (inject_italics body))))"
    and d: "reformat_date (get_first (css_text ''time'' (P (inject_italics body)))) = Inr (WatchedDate r)"
    and rt: "Rating r = star_rating (star_icons (P (inject_italics body)))"
    and tg: "Tags r = (if css_select ''gm-drop-cap'' (P (inject_italics body)) \<noteq> [] then Some ''great movies'' else None)"
    by (auto simp: parse_review_def get_strip_def Let_def split: sum.splits option.splits)
  have "half_step (Rating r)"
    using star_rating_half_step by (auto simp: rt half_step_def split: option.splits)
  moreover have "iso_date (WatchedDate r)"
    by (rule reformat_date_iso_date [OF d])
  ultimately show ?thesis
    by (simp add: wf_item_def t py_strip_idem rv build_review_def tg)
qed

text \<open>The sample document is extracted as expected (the italics injection
  does not matter for a parser that ignores its input).\<close>

lemma parse_review_sample:
  "parse_review (\<lambda>_. sample_review_doc) [] = Inr
     \<lparr>tmdbID = Some ''180383'', Title = ''Spirited Away'', Rating = Some 1,
      Review = ''<b>A fantasy</b>'' @ para_break @ ''Body.'', WatchedDate = ''2002-04-05'',
      Tags = None\<rparr>"
  by code_simp

section \<open>Properties\<close>

text \<open>C13. The extractor fails only with the exceptions of its lookups:
  \<open>KeyError\<close> (widget attributes), \<open>AttributeError\<close> (a missing title),
  \<open>TypeError\<close> (a missing dateline) or \<open>ValueError\<close> (a malformed date); the
  exceptions of the rating code never escape it.\<close>

theorem parse_review_exceptions:
  assumes "parse_review P body = Inl e"
  shows "e \<in> {KeyError, AttributeError, TypeError, ValueError}"
  using assms
  by (auto simp: parse_review_def get_strip_Inl Let_def dest: tmdb_of_Inl reformat_date_Inl
      split: sum.splits)

theorem parse_review_exceptions_witness:
  "parse_review (\<lambda>_. TextNode []) [] = Inl AttributeError \<and>
   AttributeError \<in> {KeyError, AttributeError, TypeError, ValueError}"
proof -
  have h: "parse_review (\<lambda>_. TextNode []) [] = Inl AttributeError"
    by code_simp
  show ?thesis
    using parse_review_exceptions [OF h] h by simp
qed

text \<open>C14. A document without a movie-title text raises \<open>AttributeError\<close>
  (\<open>None.strip()\<close>) and yields no review.\<close>

theorem parse_review_missing_title:
  assumes "tmdb_of (P body) = Inr t"
    and "css_text ''cast-and-crew--movie-title'' (P (inject_italics body)) = []"
  shows "parse_review P body = Inl AttributeError"
  using assms by (simp add: parse_review_def get_strip_def)

theorem parse_review_missing_title_witness:
  "parse_review (\<lambda>_. Element ''html'' [] []) [] = Inl AttributeError"
proof -
  have "tmdb_of (Element ''html'' [] []) = Inr None"
    by code_simp
  moreover have "css_text ''cast-and-crew--movie-title'' (Element ''html'' [] []) = []"
    by code_simp
  ultimately show ?thesis
    using parse_review_missing_title [of "\<lambda>_. Element ''html'' [] []" "[]" None] by simp
qed

text \<open>C15. A document with both titles but no dateline text raises
  \<open>TypeError\<close> (\<open>strptime(None, ...)\<close>) and yields no review.\<close>

theorem parse_review_missing_dateline:
  assumes "tmdb_of (P body) = Inr t"
    and "get_first (css_text ''cast-and-crew--movie-title'' (P (inject_italics body))) = Some mt"
    and "get_first (css_text ''page-content--title'' (P (inject_italics body))) = Some ttl"
    and "css_text ''time'' (P (inject_italics body)) = []"
  shows "parse_review P body = Inl TypeError"
  using assms by (simp add: parse_review_def get_strip_def reformat_date_def)

theorem parse_review_missing_dateline_witness:
  "parse_review (\<lambda>_. undated_review_doc) [] = Inl TypeError"
proof -
  have "tmdb_of undated_review_doc = Inr None"
    by code_simp
  moreover have "get_first (css_text ''cast-and-crew--movie-title'' undated_review_doc) = Some ''Vertigo''"
    by code_simp
  moreover have "get_first (css_text ''page-content--title'' undated_review_doc) = Some ''A review''"
    by code_simp
  moreover have "css_text ''time'' undated_review_doc = []"
    by code_simp
  ultimately show ?thesis
    using parse_review_missing_dateline [of "\<lambda>_. undated_review_doc" "[]" None "''Vertigo''" "''A review''"]
    by simp
qed

text \<open>C16. A JustWatch widget without a \<open>data-id-type\<close> attribute raises
  \<open>KeyError\<close>, so the whole review is lost, although the spec treats a missing
  identifier as no identifier, not as a failure.\<close>

theorem parse_review_malformed_widget:
  assumes "jw_widget_divs (P body) = w # ws" and "attr w ''data-id-type'' = None"
  shows "parse_review P body = Inl KeyError"
  using assms by (simp add: parse_review_def tmdb_of_def py_getitem_def attr_def)

theorem parse_review_malformed_widget_witness:
  "parse_review (\<lambda>_. bare_widget_doc) [] = Inl KeyError"
proof -
  have "jw_widget_divs bare_widget_doc = [Element ''div'' [(''data-jw-widget'', [])] []]"
    by code_simp
  moreover have "attr (Element ''div'' [(''data-jw-widget'', [])] []) ''data-id-type'' = None"
    by (simp add: attr_def)
  ultimately show ?thesis
    using parse_review_malformed_widget [of "\<lambda>_. bare_widget_doc" "[]"] by simp
qed

text \<open>C23. Every item the extractor yields is well formed: its title is trimmed,
  its rating absent or a multiple of one half of at least one half, its watched date
  an ISO date \<open>YYYY-MM-DD\<close>, its review opens with the bold article title, and its
  tag is absent or "great movies".\<close>

theorem parse_review_well_formed:
  assumes "parse_review P body = Inr r"
  shows "wf_item r"
  using assms by (rule parse_review_wf)

theorem parse_review_well_formed_witness:
  "parse_review (\<lambda>_. sample_review_doc) [] = Inr
     \<lparr>tmdbID = Some ''180383'', Title = ''Spirited Away'', Rating = Some 1,
      Review = ''<b>A fantasy</b>'' @ para_break @ ''Body.'', WatchedDate = ''2002-04-05'',
      Tags = None\<rparr> \<and>
   wf_item \<lparr>tmdbID = Some ''180383'', Title = ''Spirited Away'', Rating = Some 1,
      Review = ''<b>A fantasy</b>'' @ para_break @ ''Body.'', WatchedDate = ''2002-04-05'',
      Tags = None\<rparr>"
  using parse_review_sample parse_review_well_formed [OF parse_review_sample] by simp

end
