(* ===== verification/Crawler.thy ===== *)
theory Crawler
  imports Html
begin

text \<open>
  The pagination crawler: the class attributes of \<^verbatim>\<open>RogerEbertSpider\<close> and
  the callbacks \<^verbatim>\<open>parse\<close>, \<^verbatim>\<open>parse_json\<close> and \<^verbatim>\<open>get_page_url\<close>
  (lines 9--43 of \<^verbatim>\<open>src/src/scrape.py\<close>). A callback is a generator: it
  yields requests and may stop with an exception, so its result is the list of
  requests yielded before the exception and the exception, if any
  (\<open>gen_result\<close>). Name resolution is modelled where the source depends on it:
  the callbacks call the bare name \<open>get_page_url\<close>, which Python looks up in the
  function's globals and the builtins, not in the class; the URL function the
  callbacks use is therefore a parameter, instantiated with the source's binding
  (\<open>bare_page_url\<close>, a \<open>NameError\<close>) or with the method the code means
  (\<open>method_page_url\<close>). The decoded JSON envelope of a listing response is an
  input (\<open>json.loads\<close> is a library call; a decoding error is
  \<open>ValueError\<close>). The listing chain that Scrapy's engine runs, one listing
  callback after the other, is \<open>crawl_listing\<close>, a \<^theory_text>\<open>partial_function\<close>
  whose \<open>None\<close> is a crawl that never ends.
\<close>

section \<open>Names and the class body\<close>

text \<open>The module's global names (its imports and the class) and the builtins
  the source uses.\<close>

definition module_globals :: "string list" where
  "module_globals = [''datetime'', ''json'', ''Path'', ''re'', ''parse_qs'', ''urlparse'', ''scrapy'',
                     ''RogerEbertSpider'']"

definition py_builtins :: "string list" where
  "py_builtins = [''len'', ''dict'', ''Exception'', ''NotImplementedError'', ''None'']"

definition resolve_name :: "string list \<Rightarrow> string \<Rightarrow> unit py_result" where
  "resolve_name scope x = (if x \<in> set scope \<or> x \<in> set py_builtins then Inr () else Inl NameError)"

definition base_url :: string where
  "base_url = ''https://www.rogerebert.com''"

text \<open>Line 12, evaluated in the class body, where \<open>name\<close> and \<open>base_url\<close> are
  bound so far and \<open>self\<close> is not.\<close>

definition class_start_urls :: "string list py_result" where
  "class_start_urls =
     (case resolve_name ([''name'', ''base_url''] @ module_globals) ''self'' of
        Inl e \<Rightarrow> Inl e
      | Inr _ \<Rightarrow> Inr [base_url @ ''/contributors/roger-ebert''])"

text \<open>What line 12 means: the list of the one start URL, built from the class
  attribute \<open>base_url\<close>.\<close>

definition intended_start_urls :: "string list py_result" where
  "intended_start_urls = Inr [base_url @ ''/contributors/roger-ebert'']"

text \<open>Lines 42--43.\<close>

definition page_query :: string where
  "page_query =
     ''/contributors/roger-ebert?filters%5Btitle%5D=&sort%5Border%5D=newest'' @
     ''&filters%5Byears%5D%5B%5D=1914&filters%5Byears%5D%5B%5D=2024'' @
     ''&filters%5Bstar_rating%5D%5B%5D=0.0&filters%5Bstar_rating%5D%5B%5D=4.0'' @
     ''&filters%5Bno_stars%5D=1&page=''"

definition get_page_url :: "nat \<Rightarrow> string" where
  "get_page_url page = base_url @ page_query @ py_str_nat page"

text \<open>What the bare name \<open>get_page_url\<close> in \<open>parse\<close> and \<open>parse_json\<close>
  evaluates to: a lookup in the module's globals, which fails.\<close>

definition bare_page_url :: "nat \<Rightarrow> string py_result" where
  "bare_page_url page =
     (case resolve_name module_globals ''get_page_url'' of
        Inl e \<Rightarrow> Inl e
      | Inr _ \<Rightarrow> Inr (get_page_url page))"

text \<open>The binding the code means, \<open>self.get_page_url\<close>.\<close>

definition method_page_url :: "nat \<Rightarrow> string py_result" where
  "method_page_url page = Inr (get_page_url page)"

section \<open>Requests and JSON\<close>

datatype callback = ParseJson nat | ParseReview

record request =
  req_url :: string
  req_accept_json :: bool
  req_cb :: callback

type_synonym gen_result = "request list \<times> py_error option"

datatype json =
    JNull
  | JBool bool
  | JNum rat
  | JStr string
  | JArr "json list"
  | JObj "(string \<times> json) list"

text \<open>Python truthiness of a decoded JSON value.\<close>

fun py_truthy :: "json \<Rightarrow> bool" where
  "py_truthy JNull \<longleftrightarrow> False"
| "py_truthy (JBool b) \<longleftrightarrow> b"
| "py_truthy (JNum x) \<longleftrightarrow> x \<noteq> 0"
| "py_truthy (JStr s) \<longleftrightarrow> s \<noteq> []"
| "py_truthy (JArr xs) \<longleftrightarrow> xs \<noteq> []"
| "py_truthy (JObj kvs) \<longleftrightarrow> kvs \<noteq> []"

text \<open>\<open>json_response[k]\<close>: a decoded object is a \<open>dict\<close> in which the last of
  duplicate keys wins; subscripting any other value with a string raises
  \<open>TypeError\<close>.\<close>

fun json_getitem :: "json \<Rightarrow> string \<Rightarrow> json py_result" where
  "json_getitem (JObj kvs) k = (case map_of (rev kvs) k of None \<Rightarrow> Inl KeyError | Some v \<Rightarrow> Inr v)"
| "json_getitem _ k = Inl TypeError"

text \<open>\<open>response.replace(body=html)\<close>: a string body is encoded, \<open>None\<close> is the
  empty body, anything else raises \<open>TypeError\<close>.\<close>

fun body_of_json :: "json \<Rightarrow> string py_result" where
  "body_of_json (JStr s) = Inr s"
| "body_of_json JNull = Inr []"
| "body_of_json _ = Inl TypeError"

section \<open>The callbacks\<close>

definition listing_request :: "string \<Rightarrow> nat \<Rightarrow> request" where
  "listing_request url page = \<lparr>req_url = url, req_accept_json = True, req_cb = ParseJson page\<rparr>"

text \<open>\<open>response.follow(review_link, self.parse_review)\<close> (the link is kept as
  written; resolving it against the response URL is the framework's).\<close>

definition follow_review :: "string \<Rightarrow> request" where
  "follow_review link = \<lparr>req_url = link, req_accept_json = False, req_cb = ParseReview\<rparr>"

text \<open>Line 29: \<open>response.xpath('//h5/a/@href').getall()\<close>.\<close>

definition review_links :: "node \<Rightarrow> string list" where
  "review_links doc = List.map_filter (\<lambda>n. attr n ''href'') (child_of (is_tag ''h5'') (is_tag ''a'') False doc)"

text \<open>Lines 14--20.\<close>

definition parse :: "(nat \<Rightarrow> string py_result) \<Rightarrow> gen_result" where
  "parse page_url =
     (case page_url 1 of
        Inl e \<Rightarrow> ([], Some e)
      | Inr u \<Rightarrow> ([listing_request u 1], None))"

text \<open>Lines 22--40.\<close>

definition parse_json ::
  "(nat \<Rightarrow> string py_result) \<Rightarrow> html_parser \<Rightarrow> nat \<Rightarrow> json py_result \<Rightarrow> gen_result" where
  "parse_json page_url parse_html page response =
     (case response of
        Inl e \<Rightarrow> ([], Some e)
      | Inr json_response \<Rightarrow>
          (case json_getitem json_response ''html'' of
             Inl e \<Rightarrow> ([], Some e)
           | Inr html \<Rightarrow>
               (case json_getitem json_response ''more'' of
                  Inl e \<Rightarrow> ([], Some e)
                | Inr has_more \<Rightarrow>
                    (case body_of_json html of
                       Inl e \<Rightarrow> ([], Some e)
                     | Inr body \<Rightarrow>
                         (let reqs = map follow_review (review_links (parse_html body))
                          in if py_truthy has_more
                             then (case page_url (page + 1) of
                                     Inl e \<Rightarrow> (reqs, Some e)
                                   | Inr u \<Rightarrow> (reqs @ [listing_request u (page + 1)], None))
                             else (reqs, None))))))"

section \<open>The listing chain\<close>

text \<open>A listing server answers a URL with the decoded JSON envelope, or with
  nothing (a transport failure: the callback never runs).\<close>

type_synonym listing_server = "string \<Rightarrow> json py_result option"

record crawl_log =
  visited :: "nat list"
  found :: "string list"
  failures :: "py_error list"

fun next_listing :: "request list \<Rightarrow> (nat \<times> string) option" where
  "next_listing [] = None"
| "next_listing (r # rs) =
     (case req_cb r of ParseJson p \<Rightarrow> Some (p, req_url r) | ParseReview \<Rightarrow> next_listing rs)"

definition page_log :: "nat \<Rightarrow> gen_result \<Rightarrow> crawl_log" where
  "page_log page g =
     \<lparr>visited = [page], found = map req_url (filter (\<lambda>r. req_cb r = ParseReview) (fst g)),
      failures = (case snd g of None \<Rightarrow> [] | Some e \<Rightarrow> [e])\<rparr>"

definition join_log :: "crawl_log \<Rightarrow> crawl_log \<Rightarrow> crawl_log" where
  "join_log a b =
     \<lparr>visited = visited a @ visited b, found = found a @ found b, failures = failures a @ failures b\<rparr>"

partial_function (option) crawl_listing ::
  "(nat \<Rightarrow> string py_result) \<Rightarrow> html_parser \<Rightarrow> listing_server \<Rightarrow> nat \<Rightarrow> string \<Rightarrow> crawl_log option"
where
  "crawl_listing page_url parse_html srv page url =
     (case srv url of
        None \<Rightarrow> Some \<lparr>visited = [page], found = [], failures = []\<rparr>
      | Some response \<Rightarrow>
          (let g = parse_json page_url parse_html page response
           in case next_listing (fst g) of
                None \<Rightarrow> Some (page_log page g)
              | Some (p', url') \<Rightarrow>
                  Option.bind (crawl_listing page_url parse_html srv p' url')
                    (\<lambda>rest. Some (join_log (page_log page g) rest))))"

text \<open>The start of the crawl: the request \<open>parse\<close> yields, then its chain.\<close>

definition crawl :: "(nat \<Rightarrow> string py_result) \<Rightarrow> html_parser \<Rightarrow> listing_server \<Rightarrow> crawl_log option" where
  "crawl page_url parse_html srv =
     (case parse page_url of
        (reqs, err) \<Rightarrow>
          (case next_listing reqs of
             None \<Rightarrow> Some \<lparr>visited = [], found = [], failures = (case err of None \<Rightarrow> [] | Some e \<Rightarrow> [e])\<rparr>
           | Some (p, u) \<Rightarrow> crawl_listing page_url parse_html srv p u))"

text \<open>Whether the listing page \<open>k\<close> asks for the next one.\<close>

definition listing_more :: "html_parser \<Rightarrow> listing_server \<Rightarrow> nat \<Rightarrow> bool" where
  "listing_more parse_html srv k =
     (case srv (get_page_url k) of
        None \<Rightarrow> False
      | Some response \<Rightarrow> next_listing (fst (parse_json method_page_url parse_html k response)) \<noteq> None)"

text \<open>The listing page of the spec (its \<open>ListingPage\<close>): the review links of
  the decoded fragment and the \<open>more\<close> flag, when the envelope decodes.\<close>

definition listing_page :: "html_parser \<Rightarrow> json py_result \<Rightarrow> (string list \<times> bool) option" where
  "listing_page parse_html response =
     (case response of
        Inl _ \<Rightarrow> None
      | Inr j \<Rightarrow>
          (case (json_getitem j ''html'', json_getitem j ''more'') of
             (Inr h, Inr m) \<Rightarrow>
               (case body_of_json h of Inl _ \<Rightarrow> None | Inr b \<Rightarrow> Some (review_links (parse_html b), py_truthy m))
           | _ \<Rightarrow> None))"

text \<open>The links the spec expects from listing page \<open>k\<close>.\<close>

definition page_links :: "html_parser \<Rightarrow> listing_server \<Rightarrow> nat \<Rightarrow> string list" where
  "page_links parse_html srv k =
     (case srv (get_page_url k) of
        None \<Rightarrow> []
      | Some r \<Rightarrow> (case listing_page parse_html r of None \<Rightarrow> [] | Some (ls, _) \<Rightarrow> ls))"

section \<open>Lemmas\<close>

lemma next_listing_reviews [simp]: "next_listing (map follow_review xs @ ys) = next_listing ys"
  by (induction xs) (simp_all add: follow_review_def)

lemma next_listing_only_reviews [simp]: "next_listing (map follow_review xs) = None"
  using next_listing_reviews [of xs "[]"] by simp

lemma listing_request_sel [simp]:
  "req_url (listing_request u p) = u"
  "req_accept_json (listing_request u p)"
  "req_cb (listing_request u p) = ParseJson p"
  by (simp_all add: listing_request_def)

lemma follow_review_sel [simp]:
  "req_url (follow_review u) = u"
  "\<not> req_accept_json (follow_review u)"
  "req_cb (follow_review u) = ParseReview"
  by (simp_all add: follow_review_def)

lemma next_listing_request [simp]: "next_listing [listing_request u p] = Some (p, u)"
  by (simp add: listing_request_def)

lemma filter_reviews [simp]:
  "filter (\<lambda>r. req_cb r = ParseReview) (map follow_review xs) = map follow_review xs"
  by (induction xs) (simp_all add: follow_review_def)

lemma parse_json_next:
  "next_listing (fst (parse_json page_url ph k r)) = Some (p, u) \<Longrightarrow> p = Suc k \<and> page_url (Suc k) = Inr u"
  by (auto simp: parse_json_def Let_def listing_request_def split: sum.splits if_splits)

lemma parse_json_method_next:
  "next_listing (fst (parse_json method_page_url ph k r)) = Some (p, u) \<Longrightarrow>
     p = Suc k \<and> u = get_page_url (Suc k)"
  using parse_json_next [of method_page_url ph k r p u] by (simp add: method_page_url_def)

lemma visited_page_log [simp]: "visited (page_log p g) = [p]"
  by (simp add: page_log_def)

lemma found_page_log:
  "found (page_log k (parse_json page_url ph k r)) =
     (case listing_page ph r of None \<Rightarrow> [] | Some (ls, _) \<Rightarrow> ls)"
  by (auto simp: page_log_def parse_json_def listing_page_def Let_def follow_review_def comp_def
      split: sum.splits)

lemma crawl_listing_stop:
  "\<not> listing_more ph srv k \<Longrightarrow>
     \<exists>cl. crawl_listing method_page_url ph srv k (get_page_url k) = Some cl \<and> visited cl = [k] \<and>
       found cl = page_links ph srv k"
  by (subst crawl_listing.simps)
    (auto simp: listing_more_def page_links_def found_page_log Let_def split: option.splits)

lemma crawl_listing_more:
  assumes "listing_more ph srv k"
  shows "\<exists>cl1. crawl_listing method_page_url ph srv k (get_page_url k) =
      Option.bind (crawl_listing method_page_url ph srv (Suc k) (get_page_url (Suc k)))
        (\<lambda>rest. Some (join_log cl1 rest)) \<and> visited cl1 = [k] \<and> found cl1 = page_links ph srv k"
proof -
  from assms obtain r p u where srv: "srv (get_page_url k) = Some r"
    and nx: "next_listing (fst (parse_json method_page_url ph k r)) = Some (p, u)"
    by (auto simp: listing_more_def split: option.splits)
  from parse_json_method_next [OF nx] have "p = Suc k" "u = get_page_url (Suc k)"
    by auto
  with srv nx show ?thesis
    by (subst crawl_listing.simps) (auto simp: Let_def page_links_def found_page_log)
qed

lemma crawl_listing_Some_stops:
  assumes ret: "crawl_listing page_url ph srv page url = Some cl"
  shows "page_url = method_page_url \<longrightarrow> url = get_page_url page \<longrightarrow>
    (\<exists>k\<ge>page. \<not> listing_more ph srv k)"
  apply (rule crawl_listing.raw_induct [where P = "\<lambda>page_url ph srv page url cl.
    page_url = method_page_url \<longrightarrow> url = get_page_url page \<longrightarrow> (\<exists>k\<ge>page. \<not> listing_more ph srv k)",
    OF _ ret])
  subgoal premises prems for rec page_url ph srv page url cl
  proof (intro impI)
    assume pu: "page_url = method_page_url" and u: "url = get_page_url page"
    show "\<exists>k\<ge>page. \<not> listing_more ph srv k"
    proof (cases "listing_more ph srv page")
      case False
      then show ?thesis by blast
    next
      case True
      then obtain r p' u' where srv: "srv url = Some r"
        and nx: "next_listing (fst (parse_json method_page_url ph page r)) = Some (p', u')"
        using u by (auto simp: listing_more_def split: option.splits)
      from parse_json_method_next [OF nx] have p': "p' = Suc page" "u' = get_page_url (Suc page)"
        by auto
      from prems(2) srv nx pu obtain y where "rec page_url ph srv p' u' = Some y"
        by (auto simp: Let_def bind_eq_Some_conv split: option.splits)
      with prems(1) pu p' obtain k where "k \<ge> Suc page" "\<not> listing_more ph srv k"
        by blast
      then show ?thesis
        by (intro exI [of _ k]) simp
    qed
  qed
done

lemma join_log_sel [simp]:
  "visited (join_log a b) = visited a @ visited b"
  "found (join_log a b) = found a @ found b"
  "failures (join_log a b) = failures a @ failures b"
  by (simp_all add: join_log_def)

lemma get_page_url_eq_iff [simp]: "get_page_url p = get_page_url q \<longleftrightarrow> p = q"
  by (auto simp add: get_page_url_def py_str_nat_inj)

lemma crawl_method: "crawl method_page_url ph srv = crawl_listing method_page_url ph srv 1 (get_page_url 1)"
  by (simp add: crawl_def parse_def method_page_url_def)

lemma crawl_listing_visits:
  assumes "page \<le> k" and "\<forall>j. page \<le> j \<and> j < k \<longrightarrow> listing_more ph srv j"
    and "\<not> listing_more ph srv k"
  shows "\<exists>cl. crawl_listing method_page_url ph srv page (get_page_url page) = Some cl \<and>
    visited cl = [page..<Suc k] \<and> found cl = concat (map (page_links ph srv) [page..<Suc k])"
  using assms
proof (induction "k - page" arbitrary: page)
  case 0
  then have "page = k" by simp
  with crawl_listing_stop [OF "0.prems"(3)] show ?case by simp
next
  case (Suc n)
  then have lt: "page < k" and more: "listing_more ph srv page" by auto
  from Suc.hyps(2) have "n = k - Suc page" by simp
  with Suc.hyps(1) [of "Suc page"] lt Suc.prems obtain rest
    where rest: "crawl_listing method_page_url ph srv (Suc page) (get_page_url (Suc page)) = Some rest"
      and vr: "visited rest = [Suc page..<Suc k]"
      and fr: "found rest = concat (map (page_links ph srv) [Suc page..<Suc k])"
    by auto
  from crawl_listing_more [OF more] rest obtain cl1
    where "crawl_listing method_page_url ph srv page (get_page_url page) = Some (join_log cl1 rest)"
      and "visited cl1 = [page]" and "found cl1 = page_links ph srv page"
    by auto
  with vr fr lt show ?case
    by (auto simp: upt_conv_Cons)
qed

lemma parse_json_next_listing_page:
  "next_listing (fst (parse_json method_page_url ph k r)) =
     (case listing_page ph r of
        Some (_, True) \<Rightarrow> Some (Suc k, get_page_url (Suc k))
      | _ \<Rightarrow> None)"
  by (auto simp: parse_json_def listing_page_def method_page_url_def Let_def split: sum.splits)

lemma listing_more_page:
  "srv (get_page_url j) = Some r \<Longrightarrow> listing_page ph r = Some (ls, True) \<Longrightarrow> listing_more ph srv j"
  by (simp add: listing_more_def parse_json_next_listing_page)

section \<open>Properties\<close>

text \<open>C17. The page number is recovered from a listing URL: the query is fixed and
  the number is printed last in decimal; so distinct pages have distinct URLs and
  the framework's duplicate filter never drops a listing request.\<close>

theorem get_page_url_roundtrip:
  "py_int_digits (drop (length (base_url @ page_query)) (get_page_url p)) = p"
  by (simp add: get_page_url_def)

text \<open>C18. As written, the spider crawls nothing: the class body reads
  \<open>self\<close>, which is unbound there (\<open>NameError\<close> when the module is imported), and
  \<open>parse\<close> calls the bare name \<open>get_page_url\<close>, which is not a global, so even
  with the class repaired the first callback raises \<open>NameError\<close> before it yields
  any request.\<close>

theorem source_spider_crawls_nothing:
  "class_start_urls = Inl NameError \<and>
   parse bare_page_url = ([], Some NameError) \<and>
   crawl bare_page_url ph srv = Some \<lparr>visited = [], found = [], failures = [NameError]\<rparr>"
  by (simp add: class_start_urls_def resolve_name_def module_globals_def py_builtins_def parse_def
      bare_page_url_def crawl_def)

text \<open>C19. The crawl ends when a listing page says there is no more: if pages
  \<open>1, ..., k - 1\<close> answer with a truthy \<open>more\<close> and page \<open>k\<close> does not, the
  spider (with the page-URL method bound) returns, having requested exactly the
  listing pages \<open>1, ..., k\<close> in order.\<close>

theorem crawl_terminates:
  assumes "1 \<le> k" and "\<forall>j. 1 \<le> j \<and> j < k \<longrightarrow> listing_more ph srv j"
    and "\<not> listing_more ph srv k"
  shows "\<exists>cl. crawl method_page_url ph srv = Some cl \<and> visited cl = [1..<Suc k]"
  using crawl_listing_visits [OF assms] by (auto simp: crawl_method)

theorem crawl_terminates_witness:
  "listing_more (\<lambda>_. TextNode []) (\<lambda>u. Some (Inr (JObj [(''html'', JStr []), (''more'', JBool (u = get_page_url 1))]))) 1 \<and>
   \<not> listing_more (\<lambda>_. TextNode []) (\<lambda>u. Some (Inr (JObj [(''html'', JStr []), (''more'', JBool (u = get_page_url 1))]))) 2 \<and>
   (\<exists>cl. crawl method_page_url (\<lambda>_. TextNode [])
      (\<lambda>u. Some (Inr (JObj [(''html'', JStr []), (''more'', JBool (u = get_page_url 1))]))) = Some cl \<and>
      visited cl = [1, 2])"
proof -
  have l1: "listing_more (\<lambda>_. TextNode []) (\<lambda>u. Some (Inr (JObj [(''html'', JStr []), (''more'', JBool (u = get_page_url 1))]))) 1"
    by (simp add: listing_more_def parse_json_def method_page_url_def)
  have l2: "\<not> listing_more (\<lambda>_. TextNode []) (\<lambda>u. Some (Inr (JObj [(''html'', JStr []), (''more'', JBool (u = get_page_url 1))]))) 2"
    by (simp add: listing_more_def parse_json_def review_links_def)
  have "\<forall>j. 1 \<le> j \<and> j < (2::nat) \<longrightarrow>
      listing_more (\<lambda>_. TextNode []) (\<lambda>u. Some (Inr (JObj [(''html'', JStr []), (''more'', JBool (u = get_page_url 1))]))) j"
    using l1 by (auto simp: le_less_Suc_eq numeral_2_eq_2)
  from crawl_terminates [OF _ this l2] l1 l2 show ?thesis
    by (simp add: numeral_2_eq_2 upt_conv_Cons)
qed

text \<open>C20. The crawl has no page ceiling of its own: against a site whose every
  listing page serves an envelope that decodes with a true \<open>more\<close> flag, the
  spider never finishes (the chain of listing callbacks has no end).\<close>

theorem crawl_unbounded:
  assumes "\<forall>j\<ge>1. \<exists>r ls. srv (get_page_url j) = Some r \<and> listing_page ph r = Some (ls, True)"
  shows "crawl method_page_url ph srv = None"
proof (rule ccontr)
  assume "crawl method_page_url ph srv \<noteq> None"
  then obtain cl where "crawl_listing method_page_url ph srv 1 (get_page_url 1) = Some cl"
    by (auto simp: crawl_method)
  from crawl_listing_Some_stops [OF this] obtain j where "1 \<le> j" and "\<not> listing_more ph srv j"
    by auto
  with assms listing_more_page show False
    by blast
qed

theorem crawl_unbounded_witness:
  "(\<forall>j. \<exists>r ls. (\<lambda>_. Some (Inr (JObj [(''html'', JStr []), (''more'', JBool True)]))) (get_page_url j) = Some r \<and>
      listing_page (\<lambda>_. TextNode []) r = Some (ls, True)) \<and>
   crawl method_page_url (\<lambda>_. TextNode []) (\<lambda>_. Some (Inr (JObj [(''html'', JStr []), (''more'', JBool True)]))) = None"
proof -
  have h: "\<forall>j. \<exists>r ls. (\<lambda>_. Some (Inr (JObj [(''html'', JStr []), (''more'', JBool True)]))) (get_page_url j) = Some r \<and>
      listing_page (\<lambda>_. TextNode []) r = Some (ls, True)"
    by (simp add: listing_page_def)
  then have "\<forall>j\<ge>1. \<exists>r ls. (\<lambda>_. Some (Inr (JObj [(''html'', JStr []), (''more'', JBool True)]))) (get_page_url j) = Some r \<and>
      listing_page (\<lambda>_. TextNode []) r = Some (ls, True)"
    by blast
  with h crawl_unbounded [OF this] show ?thesis
    by blast
qed

text \<open>C21. The crawl implements the spec's contract: when it ends at page \<open>k\<close>,
  the review links it follows are those of the listing pages \<open>1, ..., k\<close>, in the
  order the pages are visited and, within a page, in document order.\<close>

theorem crawl_found_links:
  assumes "1 \<le> k" and "\<forall>j. 1 \<le> j \<and> j < k \<longrightarrow> listing_more ph srv j"
    and "\<not> listing_more ph srv k"
  shows "\<exists>cl. crawl method_page_url ph srv = Some cl \<and>
    found cl = concat (map (page_links ph srv) [1..<Suc k])"
  using crawl_listing_visits [OF assms] by (auto simp: crawl_method)

theorem crawl_found_links_witness:
  "listing_more (\<lambda>b. Element ''h5'' [] [Element ''a'' [(''href'', b)] []])
     (\<lambda>u. Some (Inr (JObj [(''html'', JStr (if u = get_page_url 1 then ''/r1'' else ''/r2'')),
                            (''more'', JBool (u = get_page_url 1))]))) 1 \<and>
   \<not> listing_more (\<lambda>b. Element ''h5'' [] [Element ''a'' [(''href'', b)] []])
     (\<lambda>u. Some (Inr (JObj [(''html'', JStr (if u = get_page_url 1 then ''/r1'' else ''/r2'')),
                            (''more'', JBool (u = get_page_url 1))]))) 2 \<and>
   (\<exists>cl. crawl method_page_url (\<lambda>b. Element ''h5'' [] [Element ''a'' [(''href'', b)] []])
     (\<lambda>u. Some (Inr (JObj [(''html'', JStr (if u = get_page_url 1 then ''/r1'' else ''/r2'')),
                            (''more'', JBool (u = get_page_url 1))]))) = Some cl \<and>
      found cl = [''/r1'', ''/r2''])"
proof -
  define ph :: html_parser where "ph = (\<lambda>b. Element ''h5'' [] [Element ''a'' [(''href'', b)] []])"
  define srv :: listing_server where "srv = (\<lambda>u. Some (Inr (JObj [(''html'', JStr (if u = get_page_url 1 then ''/r1'' else ''/r2'')),
                            (''more'', JBool (u = get_page_url 1))])))"
  have l1: "listing_more ph srv 1"
    by (simp add: ph_def srv_def listing_more_def parse_json_def method_page_url_def)
  have l2: "\<not> listing_more ph srv 2"
    by (simp add: ph_def srv_def listing_more_def parse_json_def review_links_def attr_def)
  have links: "concat (map (page_links ph srv) [1..<Suc 2]) = [''/r1'', ''/r2'']"
    by (simp add: ph_def srv_def page_links_def listing_page_def review_links_def attr_def
        numeral_2_eq_2 upt_conv_Cons)
  have "\<forall>j. 1 \<le> j \<and> j < (2::nat) \<longrightarrow> listing_more ph srv j"
    using l1 by (auto simp: le_less_Suc_eq numeral_2_eq_2)
  from crawl_found_links [OF _ this l2] l1 l2 links show ?thesis
    by (simp add: ph_def srv_def)
qed

text \<open>C22. The code's decision to request the next listing page is the spec's
  \<open>more\<close> flag: page \<open>k\<close> issues a listing request exactly when its envelope
  decodes and its \<open>more\<close> is true, and that request is for page \<open>k + 1\<close>.\<close>

theorem parse_json_next_iff_more:
  "next_listing (fst (parse_json method_page_url ph k r)) =
     (case listing_page ph r of
        Some (_, True) \<Rightarrow> Some (Suc k, get_page_url (Suc k))
      | _ \<Rightarrow> None)"
  by (rule parse_json_next_listing_page)

end
