(* ===== verification/Engine.thy ===== *)
theory Engine
  imports "HOL-Library.Multiset" Review Crawler
begin

text \<open>
  The Scrapy engine that runs the spider's callbacks, as a step relation. Its state
  is the list of start URLs still to fetch, the scheduler's queue of requests, the
  duplicate filter's record of request fingerprints (a request's fingerprint is its
  URL: the method is always GET, there is no body, and the \<open>Accept\<close> header is not
  part of it), the URLs downloaded so far, the listing pages whose callback ran, and
  the items and exceptions of the callbacks. A step takes any start URL or any
  queued request (the scheduler's order and the downloader's concurrency are not
  fixed), downloads it from the site, runs its callback and schedules what the
  callback yielded through the duplicate filter; a callback that raises keeps what it
  yielded before the exception. Start requests are not filtered (\<open>dont_filter\<close>).
  The reachable states are the least set holding the initial state and closed under
  steps; the invariants of the engine are proved by rule induction over them.
\<close>

section \<open>The site and the state\<close>

text \<open>A review server answers a page URL with its body, or with nothing (a
  transport failure).\<close>

type_synonym review_server = "string \<Rightarrow> string option"

record site =
  listing_srv :: listing_server
  detail_srv :: review_server
  parser :: html_parser

record engine =
  starts :: "string list"
  queue :: "request list"
  seen :: "string list"
  fetched :: "string list"
  listed :: "nat list"
  items :: "review_item list"
  errors :: "py_error list"

fun err_of :: "py_error option \<Rightarrow> py_error list" where
  "err_of None = []"
| "err_of (Some e) = [e]"

definition item_of :: "review_item py_result \<Rightarrow> review_item list" where
  "item_of r = (case r of Inl _ \<Rightarrow> [] | Inr it \<Rightarrow> [it])"

definition error_of :: "'a py_result \<Rightarrow> py_error list" where
  "error_of r = (case r of Inl e \<Rightarrow> [e] | Inr _ \<Rightarrow> [])"

section \<open>Scheduling\<close>

text \<open>The scheduler's \<open>enqueue_request\<close>: a request whose fingerprint was seen is
  dropped, any other is queued and its fingerprint recorded.\<close>

definition enqueue :: "request \<Rightarrow> engine \<Rightarrow> engine" where
  "enqueue r s =
     (if req_url r \<in> set (seen s) then s
      else s\<lparr>queue := queue s @ [r], seen := seen s @ [req_url r]\<rparr>)"

definition schedule :: "request list \<Rightarrow> engine \<Rightarrow> engine" where
  "schedule rs s = fold enqueue rs s"

text \<open>The downloader takes a request from the queue and downloads its URL.\<close>

definition dequeue :: "request \<Rightarrow> engine \<Rightarrow> engine" where
  "dequeue r s = s\<lparr>queue := remove1 r (queue s), fetched := fetched s @ [req_url r]\<rparr>"

definition engine_init :: "string list py_result \<Rightarrow> engine" where
  "engine_init start =
     (case start of
        Inl e \<Rightarrow> \<lparr>starts = [], queue = [], seen = [], fetched = [], listed = [], items = [], errors = [e]\<rparr>
      | Inr urls \<Rightarrow> \<lparr>starts = urls, queue = [], seen = [], fetched = [], listed = [], items = [], errors = []\<rparr>)"

section \<open>Steps and runs\<close>

inductive engine_step :: "(nat \<Rightarrow> string py_result) \<Rightarrow> site \<Rightarrow> engine \<Rightarrow> engine \<Rightarrow> bool"
  for page_url :: "nat \<Rightarrow> string py_result" and w :: site
where
  start: "u \<in> set (starts s) \<Longrightarrow> detail_srv w u = Some b \<Longrightarrow>
     engine_step page_url w s
       (schedule (fst (parse page_url))
          (s\<lparr>starts := remove1 u (starts s), errors := errors s @ err_of (snd (parse page_url))\<rparr>))"
| start_lost: "u \<in> set (starts s) \<Longrightarrow> detail_srv w u = None \<Longrightarrow>
     engine_step page_url w s (s\<lparr>starts := remove1 u (starts s)\<rparr>)"
| listing: "r \<in> set (queue s) \<Longrightarrow> req_cb r = ParseJson p \<Longrightarrow> listing_srv w (req_url r) = Some resp \<Longrightarrow>
     engine_step page_url w s
       (schedule (fst (parse_json page_url (parser w) p resp))
          ((dequeue r s)\<lparr>listed := listed s @ [p],
             errors := errors s @ err_of (snd (parse_json page_url (parser w) p resp))\<rparr>))"
| listing_lost: "r \<in> set (queue s) \<Longrightarrow> req_cb r = ParseJson p \<Longrightarrow> listing_srv w (req_url r) = None \<Longrightarrow>
     engine_step page_url w s (dequeue r s)"
| review: "r \<in> set (queue s) \<Longrightarrow> req_cb r = ParseReview \<Longrightarrow> detail_srv w (req_url r) = Some body \<Longrightarrow>
     engine_step page_url w s
       ((dequeue r s)\<lparr>items := items s @ item_of (parse_review (parser w) body),
          errors := errors s @ error_of (parse_review (parser w) body)\<rparr>)"
| review_lost: "r \<in> set (queue s) \<Longrightarrow> req_cb r = ParseReview \<Longrightarrow> detail_srv w (req_url r) = None \<Longrightarrow>
     engine_step page_url w s (dequeue r s)"

inductive engine_reach :: "string list py_result \<Rightarrow> (nat \<Rightarrow> string py_result) \<Rightarrow> site \<Rightarrow> engine \<Rightarrow> bool"
  for start :: "string list py_result" and page_url :: "nat \<Rightarrow> string py_result" and w :: site
where
  init: "engine_reach start page_url w (engine_init start)"
| step: "engine_reach start page_url w s \<Longrightarrow> engine_step page_url w s t \<Longrightarrow> engine_reach start page_url w t"

section \<open>Invariants\<close>

text \<open>The duplicate filter's invariant: the downloaded and the queued URLs are
  distinct, and they are exactly the recorded fingerprints.\<close>

definition dupe_inv :: "engine \<Rightarrow> bool" where
  "dupe_inv s \<longleftrightarrow>
     distinct (fetched s @ map req_url (queue s)) \<and> set (fetched s @ map req_url (queue s)) = set (seen s)"

text \<open>The listing chain's invariant, with the page-URL method bound: the listing
  pages run are \<open>1, ..., n\<close>, every queued listing request is the one for page
  \<open>n + 1\<close>, and once a page has run the first page's URL is recorded.\<close>

definition listing_inv :: "engine \<Rightarrow> bool" where
  "listing_inv s \<longleftrightarrow>
     listed s = [1..<Suc (length (listed s))] \<and>
     (\<forall>r\<in>set (queue s). req_cb r \<noteq> ParseReview \<longrightarrow>
        r = listing_request (get_page_url (Suc (length (listed s)))) (Suc (length (listed s)))) \<and>
     (listed s \<noteq> [] \<longrightarrow> get_page_url 1 \<in> set (seen s))"

section \<open>A small site\<close>

definition demo_parser :: html_parser where
  "demo_parser b = (if b = ''R'' then sample_review_doc else Element ''h5'' [] [Element ''a'' [(''href'', ''/r1'')] []])"

definition demo_listing :: listing_server where
  "demo_listing u = Some (Inr (JObj [(''html'', JStr ''L''), (''more'', JBool False)]))"

definition demo_pages :: review_server where
  "demo_pages u = (if u = ''/r1'' then Some ''R'' else None)"

definition demo_site :: site where
  "demo_site = \<lparr>listing_srv = demo_listing,
     detail_srv = (\<lambda>u. if u = base_url @ ''/contributors/roger-ebert'' then Some [] else demo_pages u),
     parser = demo_parser\<rparr>"

text \<open>The item the sample review page gives, and the engine state at the end of
  the run on the small site: start page, listing page 1, review page.\<close>

definition demo_item :: review_item where
  "demo_item =
     \<lparr>tmdbID = Some ''180383'', Title = ''Spirited Away'', Rating = Some 1,
      Review = ''<b>A fantasy</b>'' @ para_break @ ''Body.'', WatchedDate = ''2002-04-05'',
      Tags = None\<rparr>"

definition demo_final :: engine where
  "demo_final =
     \<lparr>starts = [], queue = [], seen = [get_page_url 1, ''/r1''], fetched = [get_page_url 1, ''/r1''],
      listed = [1], items = [demo_item], errors = []\<rparr>"

section \<open>Lemmas\<close>

lemma enqueue_sel [simp]:
  "starts (enqueue r s) = starts s" "fetched (enqueue r s) = fetched s" "listed (enqueue r s) = listed s"
  "items (enqueue r s) = items s" "errors (enqueue r s) = errors s"
  by (simp_all add: enqueue_def)

lemma schedule_Cons [simp]: "schedule (r # rs) s = schedule rs (enqueue r s)"
  by (simp add: schedule_def)

lemma schedule_Nil [simp]: "schedule [] s = s"
  by (simp add: schedule_def)

lemma schedule_sel [simp]:
  "starts (schedule rs s) = starts s" "fetched (schedule rs s) = fetched s" "listed (schedule rs s) = listed s"
  "items (schedule rs s) = items s" "errors (schedule rs s) = errors s"
  by (induction rs arbitrary: s) simp_all

lemma seen_schedule_mono: "set (seen s) \<subseteq> set (seen (schedule rs s))"
  by (induction rs arbitrary: s) (force simp: enqueue_def)+

lemma dequeue_sel [simp]:
  "starts (dequeue r s) = starts s" "seen (dequeue r s) = seen s" "listed (dequeue r s) = listed s"
  "items (dequeue r s) = items s" "errors (dequeue r s) = errors s"
  "fetched (dequeue r s) = fetched s @ [req_url r]" "queue (dequeue r s) = remove1 r (queue s)"
  by (simp_all add: dequeue_def)

lemma dupe_inv_enqueue: "dupe_inv s \<Longrightarrow> dupe_inv (enqueue r s)"
  by (auto simp: dupe_inv_def enqueue_def)

lemma dupe_inv_schedule: "dupe_inv s \<Longrightarrow> dupe_inv (schedule rs s)"
  by (induction rs arbitrary: s) (simp_all add: dupe_inv_enqueue)

lemma mset_dequeue:
  "r \<in> set (queue s) \<Longrightarrow>
     mset (fetched (dequeue r s) @ map req_url (queue (dequeue r s))) = mset (fetched s @ map req_url (queue s))"
  by (simp add: mset_map mset_remove1 image_mset_Diff)

lemma dupe_inv_dequeue:
  assumes "dupe_inv s" and "r \<in> set (queue s)"
  shows "dupe_inv (dequeue r s)"
proof -
  note m = mset_dequeue [OF assms(2)]
  from m have "set (fetched (dequeue r s) @ map req_url (queue (dequeue r s))) = set (fetched s @ map req_url (queue s))"
    by (metis set_mset_mset)
  moreover from m have "distinct (fetched (dequeue r s) @ map req_url (queue (dequeue r s))) =
      distinct (fetched s @ map req_url (queue s))"
    by (rule mset_eq_imp_distinct_iff)
  ultimately show ?thesis
    using assms(1) by (simp add: dupe_inv_def)
qed

lemma dupe_inv_upd [simp]:
  "dupe_inv (s\<lparr>starts := x\<rparr>) = dupe_inv s" "dupe_inv (s\<lparr>errors := e\<rparr>) = dupe_inv s"
  "dupe_inv (s\<lparr>listed := l\<rparr>) = dupe_inv s" "dupe_inv (s\<lparr>items := i\<rparr>) = dupe_inv s"
  by (simp_all add: dupe_inv_def)

lemma dupe_inv_step: "engine_step page_url w s t \<Longrightarrow> dupe_inv s \<Longrightarrow> dupe_inv t"
  by (induction rule: engine_step.induct) (simp_all add: dupe_inv_schedule dupe_inv_dequeue)

lemma dupe_inv_init: "dupe_inv (engine_init start)"
  by (simp add: dupe_inv_def engine_init_def split: sum.splits)

lemma engine_reach_dupe_inv: "engine_reach start page_url w s \<Longrightarrow> dupe_inv s"
  by (induction rule: engine_reach.induct) (simp_all add: dupe_inv_init dupe_inv_step)

lemma queue_schedule_subset:
  "set (queue (schedule rs s)) \<subseteq> set (queue s) \<union> {r \<in> set rs. req_url r \<notin> set (seen s)}"
proof (induction rs arbitrary: s)
  case (Cons r rs)
  have "set (seen s) \<subseteq> set (seen (enqueue r s))"
    by (auto simp: enqueue_def)
  with Cons.IH [of "enqueue r s"] show ?case
    by (auto simp: enqueue_def split: if_splits)
qed simp

lemma parse_method: "parse method_page_url = ([listing_request (get_page_url 1) 1], None)"
  by (simp add: parse_def method_page_url_def)

lemma parse_json_method_listing:
  "r \<in> set (fst (parse_json method_page_url ph p resp)) \<Longrightarrow> req_cb r \<noteq> ParseReview \<Longrightarrow>
     r = listing_request (get_page_url (Suc p)) (Suc p)"
  by (auto simp: parse_json_def method_page_url_def Let_def split: sum.splits if_splits)

lemma dupe_inv_queued_seen: "dupe_inv s \<Longrightarrow> r \<in> set (queue s) \<Longrightarrow> req_url r \<in> set (seen s)"
  by (auto simp: dupe_inv_def)

lemma dupe_inv_distinct_queue: "dupe_inv s \<Longrightarrow> distinct (queue s)"
  by (auto simp: dupe_inv_def distinct_map)

lemma listing_inv_upd [simp]:
  "listing_inv (s\<lparr>starts := x\<rparr>) = listing_inv s" "listing_inv (s\<lparr>errors := e\<rparr>) = listing_inv s"
  "listing_inv (s\<lparr>items := i\<rparr>) = listing_inv s"
  by (simp_all add: listing_inv_def)

lemma listing_inv_dequeue: "listing_inv s \<Longrightarrow> listing_inv (dequeue r s)"
  by (auto simp: listing_inv_def dest: set_remove1_subset [THEN subsetD])

lemma listing_inv_start:
  assumes "listing_inv s"
  shows "listing_inv (schedule [listing_request (get_page_url 1) 1] s)"
proof (cases "get_page_url 1 \<in> set (seen s)")
  case True
  with assms show ?thesis by (simp add: enqueue_def)
next
  case False
  with assms have "listed s = []" and q: "\<forall>r\<in>set (queue s). req_cb r \<noteq> ParseReview \<longrightarrow>
      r = listing_request (get_page_url 1) 1"
    by (auto simp: listing_inv_def)
  with False show ?thesis
    by (auto simp: listing_inv_def enqueue_def)
qed

text \<open>The listing request taken from the queue was the only one waiting.\<close>

lemma listing_inv_remove1_reviews:
  assumes d: "dupe_inv s" and l: "listing_inv s" and r: "r \<in> set (queue s)"
    and cb: "req_cb r \<noteq> ParseReview"
  shows "\<forall>x\<in>set (remove1 r (queue s)). req_cb x = ParseReview"
proof
  fix x assume x: "x \<in> set (remove1 r (queue s))"
  have "x \<noteq> r"
    using x dupe_inv_distinct_queue [OF d] by auto
  moreover from l r cb have "r = listing_request (get_page_url (Suc (length (listed s)))) (Suc (length (listed s)))"
    by (auto simp: listing_inv_def)
  ultimately show "req_cb x = ParseReview"
    using x l by (auto simp: listing_inv_def dest: set_remove1_subset [THEN subsetD])
qed

lemma listing_inv_listing:
  assumes d: "dupe_inv s" and l: "listing_inv s" and r: "r \<in> set (queue s)" and cb: "req_cb r = ParseJson p"
  shows "listing_inv (schedule (fst (parse_json method_page_url ph p resp))
      ((dequeue r s)\<lparr>listed := listed s @ [p], errors := es\<rparr>))"
proof -
  let ?n = "Suc (length (listed s))"
  let ?s1 = "(dequeue r s)\<lparr>listed := listed s @ [p], errors := es\<rparr>"
  let ?t = "schedule (fst (parse_json method_page_url ph p resp)) ?s1"
  from l r cb have rn: "r = listing_request (get_page_url ?n) ?n"
    by (auto simp: listing_inv_def)
  with cb have p: "p = ?n" by simp
  have old: "\<forall>x\<in>set (remove1 r (queue s)). req_cb x = ParseReview"
    using listing_inv_remove1_reviews [OF d l r] cb by simp
  have q: "set (queue ?t) \<subseteq> set (remove1 r (queue s)) \<union> set (fst (parse_json method_page_url ph p resp))"
    using queue_schedule_subset [of _ ?s1] by auto
  have "\<forall>x\<in>set (queue ?t). req_cb x \<noteq> ParseReview \<longrightarrow>
      x = listing_request (get_page_url (Suc ?n)) (Suc ?n)"
    using q old parse_json_method_listing [of _ ph p resp] p by blast
  moreover have "listed ?t = [1..<Suc (Suc (length (listed s)))]"
    using l p by (simp add: listing_inv_def)
  moreover have "get_page_url 1 \<in> set (seen ?t)"
  proof -
    have "get_page_url 1 \<in> set (seen s)"
    proof (cases "listed s = []")
      case True
      with rn dupe_inv_queued_seen [OF d r] show ?thesis by simp
    next
      case False
      with l show ?thesis by (simp add: listing_inv_def)
    qed
    then show ?thesis
      using seen_schedule_mono [of ?s1] by auto
  qed
  ultimately show ?thesis
    by (simp add: listing_inv_def)
qed

lemma listing_inv_step:
  "engine_step method_page_url w s t \<Longrightarrow> dupe_inv s \<Longrightarrow> listing_inv s \<Longrightarrow> listing_inv t"
proof (induction rule: engine_step.induct)
  case (start u s b)
  show ?case
    unfolding parse_method fst_conv snd_conv
    by (rule listing_inv_start) (simp add: start.prems)
next
  case (listing r s p resp)
  show ?case
    by (rule listing_inv_listing [OF listing.prems listing.hyps(1,2)])
qed (simp_all add: listing_inv_dequeue)

lemma listing_inv_init: "listing_inv (engine_init start)"
  by (simp add: listing_inv_def engine_init_def split: sum.splits)

lemma engine_reach_listing_inv: "engine_reach start method_page_url w s \<Longrightarrow> listing_inv s"
proof (induction rule: engine_reach.induct)
  case init
  show ?case by (rule listing_inv_init)
next
  case (step s t)
  then show ?case
    using listing_inv_step engine_reach_dupe_inv by blast
qed


lemma demo_review: "parse_review demo_parser ''R'' = Inr demo_item"
  unfolding demo_item_def by code_simp

lemma demo_url_ne: "''/r1'' \<noteq> get_page_url n"
  by (simp add: get_page_url_def base_url_def)

lemma demo_engine_reach: "engine_reach intended_start_urls method_page_url demo_site demo_final"
proof -
  let ?su = "base_url @ ''/contributors/roger-ebert''"
  let ?l1 = "listing_request (get_page_url 1) 1"
  let ?s0 = "engine_init intended_start_urls"
  let ?s1 = "\<lparr>starts = [], queue = [?l1], seen = [get_page_url 1], fetched = [], listed = [],
     items = [], errors = []\<rparr>"
  let ?s2 = "\<lparr>starts = [], queue = [follow_review ''/r1''], seen = [get_page_url 1, ''/r1''],
     fetched = [get_page_url 1], listed = [1], items = [], errors = []\<rparr>"
  have s0: "?s0 = \<lparr>starts = [?su], queue = [], seen = [], fetched = [], listed = [], items = [], errors = []\<rparr>"
    by (simp add: engine_init_def intended_start_urls_def)
  have "engine_step method_page_url demo_site ?s0
      (schedule (fst (parse method_page_url))
        (?s0\<lparr>starts := remove1 ?su (starts ?s0), errors := errors ?s0 @ err_of (snd (parse method_page_url))\<rparr>))"
    by (rule engine_step.start [where b = "[]"]) (simp_all add: s0 demo_site_def)
  then have st1: "engine_step method_page_url demo_site ?s0 ?s1"
    by (simp add: s0 parse_method enqueue_def)
  have "engine_step method_page_url demo_site ?s1
      (schedule (fst (parse_json method_page_url (parser demo_site) 1
          (Inr (JObj [(''html'', JStr ''L''), (''more'', JBool False)]))))
        ((dequeue ?l1 ?s1)\<lparr>listed := listed ?s1 @ [1],
           errors := errors ?s1 @ err_of (snd (parse_json method_page_url (parser demo_site) 1
             (Inr (JObj [(''html'', JStr ''L''), (''more'', JBool False)]))))\<rparr>))"
    by (rule engine_step.listing) (simp_all add: demo_site_def demo_listing_def)
  then have st2: "engine_step method_page_url demo_site ?s1 ?s2"
    by (simp add: demo_site_def parse_json_def review_links_def attr_def demo_parser_def
        enqueue_def dequeue_def demo_url_ne)
  have "engine_step method_page_url demo_site ?s2
      ((dequeue (follow_review ''/r1'') ?s2)\<lparr>items := items ?s2 @ item_of (parse_review (parser demo_site) ''R''),
         errors := errors ?s2 @ error_of (parse_review (parser demo_site) ''R'')\<rparr>)"
    by (rule engine_step.review [where body = "''R''"]) (simp_all add: demo_site_def demo_pages_def base_url_def)
  then have st3: "engine_step method_page_url demo_site ?s2 demo_final"
    by (simp add: demo_site_def demo_review item_of_def error_of_def dequeue_def demo_final_def)
  show ?thesis
    by (rule engine_reach.step [OF engine_reach.step [OF engine_reach.step [OF engine_reach.init st1] st2] st3])
qed

lemma distinct_length_le_one:
  assumes "distinct xs" and "set xs \<subseteq> {a}"
  shows "length xs \<le> 1"
proof -
  have "length xs = card (set xs)"
    using assms(1) by (simp add: distinct_card)
  also have "\<dots> \<le> card {a}"
    using assms(2) by (rule card_mono [rotated]) simp
  finally show ?thesis by simp
qed

section \<open>Properties\<close>

text \<open>C24. With the page-URL method bound, the listing pages run strictly in
  sequence: the pages whose callback ran are \<open>1, ..., n\<close> in this order, and at
  most one listing request is waiting at any time, whatever order the scheduler
  picks requests in.\<close>

theorem engine_listing_in_order:
  assumes "engine_reach start method_page_url w s"
  shows "listed s = [1..<Suc (length (listed s))] \<and>
    length (filter (\<lambda>r. req_cb r \<noteq> ParseReview) (queue s)) \<le> 1"
proof -
  let ?n = "Suc (length (listed s))"
  from engine_reach_listing_inv [OF assms] have l: "listing_inv s" .
  have "distinct (filter (\<lambda>r. req_cb r \<noteq> ParseReview) (queue s))"
    using dupe_inv_distinct_queue [OF engine_reach_dupe_inv [OF assms]] by simp
  moreover have "set (filter (\<lambda>r. req_cb r \<noteq> ParseReview) (queue s)) \<subseteq>
      {listing_request (get_page_url ?n) ?n}"
    using l by (auto simp: listing_inv_def)
  ultimately have "length (filter (\<lambda>r. req_cb r \<noteq> ParseReview) (queue s)) \<le> 1"
    by (rule distinct_length_le_one)
  with l show ?thesis
    by (simp add: listing_inv_def)
qed

theorem engine_listing_in_order_witness:
  "engine_reach intended_start_urls method_page_url demo_site demo_final \<and>
   listed demo_final = [1..<Suc (length (listed demo_final))] \<and>
   length (filter (\<lambda>r. req_cb r \<noteq> ParseReview) (queue demo_final)) \<le> 1"
  using demo_engine_reach engine_listing_in_order [OF demo_engine_reach] by simp

end
