(* ===== verification/EngineRun.thy ===== *)
theory EngineRun
  imports Engine
begin

text \<open>
  Runs of the engine on a site whose listing chain ends: when listing page \<open>k\<close>
  asks for no further page, the URLs the engine can ever record are the listing URLs
  of pages \<open>1, ..., k\<close> and the review links of those pages (\<open>site_urls\<close>). That
  bounds the downloads, and a measure (start URLs left plus downloads still
  possible) decreases at every step, so every run of the engine is finite whatever
  the scheduling order; with the progress lemma (a state can step exactly when work
  is left), every run ends in a quiescent state.
\<close>

section \<open>The URLs of a finite site\<close>

definition site_urls :: "site \<Rightarrow> nat \<Rightarrow> string set" where
  "site_urls w k =
     get_page_url ` {1..k} \<union> set (concat (map (page_links (parser w) (listing_srv w)) [1..<Suc k]))"

text \<open>The bound invariant: every fingerprint is a URL of the site, at most
  \<open>k\<close> listing pages have run, and a listing request waits only while fewer than
  \<open>k\<close> have.\<close>

definition bound_inv :: "site \<Rightarrow> nat \<Rightarrow> engine \<Rightarrow> bool" where
  "bound_inv w k s \<longleftrightarrow>
     set (seen s) \<subseteq> site_urls w k \<and> length (listed s) \<le> k \<and>
     (\<forall>r\<in>set (queue s). req_cb r \<noteq> ParseReview \<longrightarrow> length (listed s) < k)"

text \<open>What is left to do: the start URLs, and the downloads still possible.\<close>

definition work_left :: "site \<Rightarrow> nat \<Rightarrow> engine \<Rightarrow> nat" where
  "work_left w k s = length (starts s) + (card (site_urls w k) - length (fetched s))"

section \<open>Lemmas\<close>

lemma finite_site_urls [simp]: "finite (site_urls w k)"
  by (simp add: site_urls_def)

lemma card_site_urls: "card (site_urls w k) \<le> k + length (concat (map (page_links (parser w) (listing_srv w)) [1..<Suc k]))"
proof -
  have "card (site_urls w k) \<le> card (get_page_url ` {1..k}) +
      card (set (concat (map (page_links (parser w) (listing_srv w)) [1..<Suc k])))"
    unfolding site_urls_def by (rule card_Un_le)
  also have "\<dots> \<le> k + length (concat (map (page_links (parser w) (listing_srv w)) [1..<Suc k]))"
  proof (rule add_mono)
    show "card (get_page_url ` {1..k}) \<le> k"
      using card_image_le [of "{1..k}" get_page_url] by simp
  qed (rule card_length)
  finally show ?thesis .
qed

lemma seen_schedule_subset: "set (seen (schedule rs s)) \<subseteq> set (seen s) \<union> req_url ` set rs"
proof (induction rs arbitrary: s)
  case (Cons r rs)
  have "set (seen (enqueue r s)) \<subseteq> set (seen s) \<union> {req_url r}"
    by (auto simp: enqueue_def)
  with Cons.IH [of "enqueue r s"] show ?case by auto
qed simp

lemma next_listing_None_iff: "next_listing rs = None \<longleftrightarrow> (\<forall>r\<in>set rs. req_cb r = ParseReview)"
  by (induction rs) (auto split: callback.splits)

lemma review_urls_parse_json:
  "set (map req_url (filter (\<lambda>r. req_cb r = ParseReview) (fst (parse_json pu ph n resp)))) =
     set (case listing_page ph resp of None \<Rightarrow> [] | Some (ls, _) \<Rightarrow> ls)"
  using found_page_log [of n pu ph resp] by (simp add: page_log_def)

lemma bound_inv_upd [simp]:
  "bound_inv w k (s\<lparr>starts := x\<rparr>) = bound_inv w k s" "bound_inv w k (s\<lparr>errors := e\<rparr>) = bound_inv w k s"
  "bound_inv w k (s\<lparr>items := i\<rparr>) = bound_inv w k s"
  by (simp_all add: bound_inv_def)

lemma bound_inv_dequeue: "bound_inv w k s \<Longrightarrow> bound_inv w k (dequeue r s)"
  by (auto simp: bound_inv_def dest: set_remove1_subset [THEN subsetD])

lemma bound_inv_start:
  assumes "listing_inv s" and "bound_inv w k s" and "1 \<le> k"
  shows "bound_inv w k (schedule [listing_request (get_page_url 1) 1] s)"
proof (cases "get_page_url 1 \<in> set (seen s)")
  case True
  with assms(2) show ?thesis by (simp add: enqueue_def)
next
  case False
  with assms(1) have "listed s = []"
    by (auto simp: listing_inv_def)
  with False assms(2,3) show ?thesis
    by (auto simp: bound_inv_def enqueue_def site_urls_def)
qed

lemma bound_inv_listing:
  assumes d: "dupe_inv s" and l: "listing_inv s" and b: "bound_inv w k s"
    and r: "r \<in> set (queue s)" and cb: "req_cb r = ParseJson p"
    and sv: "listing_srv w (req_url r) = Some resp"
    and last: "\<not> listing_more (parser w) (listing_srv w) k"
  shows "bound_inv w k (schedule (fst (parse_json method_page_url (parser w) p resp))
      ((dequeue r s)\<lparr>listed := listed s @ [p], errors := es\<rparr>))"
proof -
  let ?n = "Suc (length (listed s))"
  let ?g = "fst (parse_json method_page_url (parser w) p resp)"
  let ?s1 = "(dequeue r s)\<lparr>listed := listed s @ [p], errors := es\<rparr>"
  let ?t = "schedule ?g ?s1"
  from l r cb have rn: "r = listing_request (get_page_url ?n) ?n"
    by (auto simp: listing_inv_def)
  with cb have p: "p = ?n" by simp
  from rn sv have srv: "listing_srv w (get_page_url ?n) = Some resp" by simp
  from b r cb have lt: "length (listed s) < k"
    by (auto simp: bound_inv_def)
  have more: "?n < k" if "x \<in> set ?g" and "req_cb x \<noteq> ParseReview" for x
  proof -
    from that have "listing_more (parser w) (listing_srv w) ?n"
      by (auto simp: listing_more_def srv p next_listing_None_iff)
    with last lt show ?thesis
      by (cases "?n = k") auto
  qed
  have links: "set (page_links (parser w) (listing_srv w) ?n) \<subseteq> site_urls w k"
  proof -
    have "?n \<in> set [1..<Suc k]" using lt by (simp del: upt_Suc)
    then have "set (page_links (parser w) (listing_srv w) ?n) \<subseteq>
        set (concat (map (page_links (parser w) (listing_srv w)) [1..<Suc k]))"
      by (rule set_concat_map_mem)
    then show ?thesis unfolding site_urls_def by blast
  qed
  have g_urls: "req_url ` set ?g \<subseteq> site_urls w k"
  proof
    fix u assume "u \<in> req_url ` set ?g"
    then obtain x where x: "x \<in> set ?g" and u: "u = req_url x" by blast
    show "u \<in> site_urls w k"
    proof (cases "req_cb x = ParseReview")
      case True
      with x u have "u \<in> set (map req_url (filter (\<lambda>r. req_cb r = ParseReview) ?g))" by auto
      with links show ?thesis
        by (simp only: review_urls_parse_json) (auto simp: page_links_def srv p)
    next
      case False
      with x have "x = listing_request (get_page_url (Suc p)) (Suc p)"
        by (rule parse_json_method_listing)
      with more [OF x False] u p show ?thesis
        by (auto simp: site_urls_def)
    qed
  qed
  have "set (seen ?t) \<subseteq> site_urls w k"
    using seen_schedule_subset [of ?g ?s1] b g_urls by (auto simp: bound_inv_def)
  moreover have "length (listed ?t) \<le> k"
    using lt p by simp
  moreover have "\<forall>x\<in>set (queue ?t). req_cb x \<noteq> ParseReview \<longrightarrow> length (listed ?t) < k"
  proof (intro ballI impI)
    fix x assume x: "x \<in> set (queue ?t)" and nr: "req_cb x \<noteq> ParseReview"
    from x queue_schedule_subset [of ?g ?s1] have "x \<in> set (remove1 r (queue s)) \<or> x \<in> set ?g"
      by auto
    moreover have "x \<notin> set (remove1 r (queue s))"
      using listing_inv_remove1_reviews [OF d l r] cb nr by auto
    ultimately have "x \<in> set ?g" by blast
    with more nr p show "length (listed ?t) < k" by simp
  qed
  ultimately show ?thesis
    by (simp add: bound_inv_def)
qed

lemma bound_inv_step:
  assumes "engine_step method_page_url w s t" and "dupe_inv s" and "listing_inv s" and "bound_inv w k s"
    and k: "1 \<le> k" and last: "\<not> listing_more (parser w) (listing_srv w) k"
  shows "bound_inv w k t"
  using assms(1-4)
proof (induction rule: engine_step.induct)
  case (start u s b)
  show ?case
    unfolding parse_method fst_conv snd_conv
    by (rule bound_inv_start) (use k in \<open>simp_all add: start.prems\<close>)
next
  case (listing r s p resp)
  show ?case
    by (rule bound_inv_listing [OF listing.prems listing.hyps last])
qed (simp_all add: bound_inv_dequeue)

lemma engine_reach_bound_inv:
  assumes "engine_reach start method_page_url w s" and "1 \<le> k"
    and "\<not> listing_more (parser w) (listing_srv w) k"
  shows "bound_inv w k s"
  using assms(1)
proof (induction rule: engine_reach.induct)
  case init
  show ?case by (simp add: bound_inv_def engine_init_def split: sum.splits)
next
  case (step s t)
  have d: "dupe_inv s" using step.hyps(1) by (rule engine_reach_dupe_inv)
  have l: "listing_inv s" using step.hyps(1) by (rule engine_reach_listing_inv)
  show ?case by (rule bound_inv_step [OF step.hyps(2) d l step.IH assms(2,3)])
qed

lemma fetched_le_site:
  assumes "engine_reach start method_page_url w s" and "1 \<le> k"
    and "\<not> listing_more (parser w) (listing_srv w) k"
  shows "length (fetched s) \<le> card (site_urls w k)"
proof -
  from engine_reach_dupe_inv [OF assms(1)] have "distinct (fetched s)" and f: "set (fetched s) \<subseteq> set (seen s)"
    by (auto simp: dupe_inv_def)
  moreover from engine_reach_bound_inv [OF assms] have "set (seen s) \<subseteq> site_urls w k"
    by (simp add: bound_inv_def)
  ultimately show ?thesis
    by (metis card_mono distinct_card finite_site_urls order_trans)
qed

lemma engine_step_starts_fetched:
  "engine_step page_url w s t \<Longrightarrow>
     (length (starts t) < length (starts s) \<and> fetched t = fetched s) \<or>
     (starts t = starts s \<and> length (fetched t) = Suc (length (fetched s)))"
proof (induction rule: engine_step.induct)
  case (start u s b)
  from start.hyps(1) have "length (remove1 u (starts s)) < length (starts s)"
    by (rule length_remove1_less)
  then show ?case by (simp del: length_remove1)
next
  case (start_lost u s)
  from start_lost.hyps(1) have "length (remove1 u (starts s)) < length (starts s)"
    by (rule length_remove1_less)
  then show ?case by (simp del: length_remove1)
qed simp_all

lemma work_left_decreases:
  assumes "engine_reach start method_page_url w s" and "engine_step method_page_url w s t"
    and "1 \<le> k" and "\<not> listing_more (parser w) (listing_srv w) k"
  shows "work_left w k t < work_left w k s"
proof -
  have "engine_reach start method_page_url w t"
    using assms(1,2) by (rule engine_reach.step)
  from fetched_le_site [OF this assms(3,4)] have "length (fetched t) \<le> card (site_urls w k)" .
  with engine_step_starts_fetched [OF assms(2)] show ?thesis
    by (auto simp: work_left_def)
qed

lemma engine_step_wf:
  assumes "1 \<le> k" and "\<not> listing_more (parser w) (listing_srv w) k"
  shows "wf {(t, s). engine_reach start method_page_url w s \<and> engine_step method_page_url w s t}"
proof (rule wf_subset [OF wf_measure [of "work_left w k"]])
  show "{(t, s). engine_reach start method_page_url w s \<and> engine_step method_page_url w s t} \<subseteq>
      measure (work_left w k)"
    using work_left_decreases [OF _ _ assms] by auto
qed

lemma demo_last_site: "\<not> listing_more (parser demo_site) (listing_srv demo_site) 1"
  by (simp add: demo_site_def listing_more_def demo_listing_def parse_json_def)

section \<open>Properties\<close>

text \<open>C25. On a site whose listing page \<open>k\<close> asks for no further page, the engine
  (with the page-URL method bound) downloads at most \<open>k\<close> listing pages plus the
  review links those pages hold, in every run.\<close>

theorem engine_downloads_bounded:
  assumes "engine_reach start method_page_url w s" and "1 \<le> k"
    and "\<not> listing_more (parser w) (listing_srv w) k"
  shows "length (fetched s) \<le> k + length (concat (map (page_links (parser w) (listing_srv w)) [1..<Suc k]))"
  using fetched_le_site [OF assms] card_site_urls [of w k] by linarith

theorem engine_downloads_bounded_witness:
  "engine_reach intended_start_urls method_page_url demo_site demo_final \<and> 1 \<le> (1::nat) \<and>
   \<not> listing_more (parser demo_site) (listing_srv demo_site) 1 \<and>
   length (fetched demo_final) \<le> 1 + length (concat (map (page_links (parser demo_site) (listing_srv demo_site)) [1..<Suc 1]))"
  using demo_engine_reach demo_last_site engine_downloads_bounded [OF demo_engine_reach _ demo_last_site] by simp

text \<open>C26. On such a site every run of the engine is finite, whatever order the
  scheduler picks requests in: the step relation restricted to reachable states is
  well founded.\<close>

theorem engine_terminates:
  assumes "1 \<le> k" and "\<not> listing_more (parser w) (listing_srv w) k"
  shows "wf {(t, s). engine_reach start method_page_url w s \<and> engine_step method_page_url w s t}"
  using assms by (rule engine_step_wf)

theorem engine_terminates_witness:
  "1 \<le> (1::nat) \<and> \<not> listing_more (parser demo_site) (listing_srv demo_site) 1 \<and>
   wf {(t, s). engine_reach intended_start_urls method_page_url demo_site s \<and> engine_step method_page_url demo_site s t}"
  using demo_last_site engine_terminates [OF _ demo_last_site] by simp

end
