(* ===== verification/Quiescence.thy ===== *)
theory Quiescence
  imports EngineRun
begin

text \<open>
  What a finished crawl holds. On a well-served site (the listing chain ends at page
  \<open>k\<close>, the listing pages and the start page are served, and no review link is a
  listing URL), a quiescent reachable state of the engine, with the page-URL method
  bound and the intended start URL, has run exactly the listing pages
  \<open>1, ..., k\<close>, and its items are exactly the reviews extracted without exception
  from the served review links of those pages. The proof is one more invariant over
  the reachable states (\<open>complete_inv\<close>) that records what every step leaves behind.
\<close>

section \<open>Well-served sites\<close>

definition start_url :: string where
  "start_url = base_url @ ''/contributors/roger-ebert''"

definition site_links :: "site \<Rightarrow> nat \<Rightarrow> string set" where
  "site_links w k = set (concat (map (page_links (parser w) (listing_srv w)) [1..<Suc k]))"

definition well_served :: "site \<Rightarrow> nat \<Rightarrow> bool" where
  "well_served w k \<longleftrightarrow>
     1 \<le> k \<and> (\<forall>j. 1 \<le> j \<and> j < k \<longrightarrow> listing_more (parser w) (listing_srv w) j) \<and>
     \<not> listing_more (parser w) (listing_srv w) k \<and> listing_srv w (get_page_url k) \<noteq> None \<and>
     detail_srv w start_url \<noteq> None \<and> site_links w k \<inter> range get_page_url = {}"

section \<open>The invariant\<close>

text \<open>Each conjunct of the invariant on its own: only the start URL is left to
  start; once it has run, the first listing URL is recorded; every queued review
  request is for a link of the site; a listing page that asked for more has had the
  next listing URL recorded; a downloaded listing URL was run or is not served; the
  links of every listing page run are recorded; every downloaded link gave its item;
  every item comes from a served link.\<close>

definition qi_first :: "engine \<Rightarrow> bool" where
  "qi_first s \<longleftrightarrow> set (starts s) \<subseteq> {start_url} \<and> (starts s = [] \<longrightarrow> get_page_url 1 \<in> set (seen s))"

definition qi_queue :: "site \<Rightarrow> nat \<Rightarrow> engine \<Rightarrow> bool" where
  "qi_queue w k s \<longleftrightarrow> (\<forall>r\<in>set (queue s). req_cb r = ParseReview \<longrightarrow> req_url r \<in> site_links w k)"

definition qi_next :: "site \<Rightarrow> engine \<Rightarrow> bool" where
  "qi_next w s \<longleftrightarrow>
     (\<forall>j\<in>set (listed s). listing_more (parser w) (listing_srv w) j \<longrightarrow> get_page_url (Suc j) \<in> set (seen s))"

definition qi_fetched :: "site \<Rightarrow> engine \<Rightarrow> bool" where
  "qi_fetched w s \<longleftrightarrow>
     (\<forall>j. get_page_url j \<in> set (fetched s) \<longrightarrow> j \<in> set (listed s) \<or> listing_srv w (get_page_url j) = None)"

definition qi_links :: "site \<Rightarrow> engine \<Rightarrow> bool" where
  "qi_links w s \<longleftrightarrow> (\<forall>j\<in>set (listed s). set (page_links (parser w) (listing_srv w) j) \<subseteq> set (seen s))"

definition qi_done :: "site \<Rightarrow> nat \<Rightarrow> engine \<Rightarrow> bool" where
  "qi_done w k s \<longleftrightarrow>
     (\<forall>u\<in>set (fetched s). u \<in> site_links w k \<longrightarrow>
        (\<forall>body. detail_srv w u = Some body \<longrightarrow> set (item_of (parse_review (parser w) body)) \<subseteq> set (items s)))"

definition qi_items :: "site \<Rightarrow> nat \<Rightarrow> engine \<Rightarrow> bool" where
  "qi_items w k s \<longleftrightarrow>
     (\<forall>it\<in>set (items s). \<exists>u body. u \<in> site_links w k \<and> detail_srv w u = Some body \<and>
        parse_review (parser w) body = Inr it)"

definition complete_inv :: "site \<Rightarrow> nat \<Rightarrow> engine \<Rightarrow> bool" where
  "complete_inv w k s \<longleftrightarrow>
     qi_first s \<and> qi_queue w k s \<and> qi_next w s \<and> qi_fetched w s \<and> qi_links w s \<and>
     qi_done w k s \<and> qi_items w k s"

section \<open>Lemmas\<close>

lemma urls_seen_schedule: "req_url ` set rs \<subseteq> set (seen (schedule rs s))"
proof (induction rs arbitrary: s)
  case (Cons r rs)
  have "req_url r \<in> set (seen (enqueue r s))"
    by (simp add: enqueue_def)
  with Cons.IH [of "enqueue r s"] seen_schedule_mono [of "enqueue r s" rs] show ?case
    by auto
qed simp

lemma page_links_served:
  "listing_srv w (get_page_url n) = Some resp \<Longrightarrow>
     set (page_links (parser w) (listing_srv w) n) =
       req_url ` set (filter (\<lambda>r. req_cb r = ParseReview) (fst (parse_json method_page_url (parser w) n resp)))"
  using review_urls_parse_json [of method_page_url "parser w" n resp] by (simp add: page_links_def)

lemma listing_more_next:
  assumes "listing_srv w (get_page_url n) = Some resp" and "listing_more (parser w) (listing_srv w) n"
  shows "listing_request (get_page_url (Suc n)) (Suc n) \<in> set (fst (parse_json method_page_url (parser w) n resp))"
proof -
  from assms obtain x where x: "x \<in> set (fst (parse_json method_page_url (parser w) n resp))"
    and "req_cb x \<noteq> ParseReview"
    by (auto simp: listing_more_def next_listing_None_iff)
  with parse_json_method_listing [OF x] show ?thesis by simp
qed

lemma well_served_page:
  assumes "well_served w k" and "1 \<le> j" and "j \<le> k"
  shows "listing_srv w (get_page_url j) \<noteq> None"
proof (cases "j = k")
  case False
  with assms have "listing_more (parser w) (listing_srv w) j"
    by (simp add: well_served_def)
  then show ?thesis
    by (auto simp: listing_more_def split: option.splits)
qed (use assms in \<open>simp add: well_served_def\<close>)

lemma site_links_not_listing: "well_served w k \<Longrightarrow> u \<in> site_links w k \<Longrightarrow> u \<noteq> get_page_url j"
  by (auto simp: well_served_def)

lemma engine_step_mono:
  assumes "engine_step pu w s t"
  shows "set (seen s) \<subseteq> set (seen t) \<and> set (listed s) \<subseteq> set (listed t) \<and>
    set (items s) \<subseteq> set (items t) \<and> set (fetched s) \<subseteq> set (fetched t) \<and> set (starts t) \<subseteq> set (starts s)"
  using assms
proof (induction rule: engine_step.induct)
  case (start u s b)
  have "set (seen (s\<lparr>starts := remove1 u (starts s), errors := errors s @ err_of (snd (parse pu))\<rparr>)) \<subseteq>
      set (seen (schedule (fst (parse pu)) (s\<lparr>starts := remove1 u (starts s), errors := errors s @ err_of (snd (parse pu))\<rparr>)))"
    by (rule seen_schedule_mono)
  then show ?case
    by (auto dest: set_remove1_subset [THEN subsetD])
next
  case (listing r s p resp)
  have "set (seen ((dequeue r s)\<lparr>listed := listed s @ [p],
        errors := errors s @ err_of (snd (parse_json pu (parser w) p resp))\<rparr>)) \<subseteq>
      set (seen (schedule (fst (parse_json pu (parser w) p resp)) ((dequeue r s)\<lparr>listed := listed s @ [p],
        errors := errors s @ err_of (snd (parse_json pu (parser w) p resp))\<rparr>)))"
    by (rule seen_schedule_mono)
  then show ?case
    by auto
qed (auto dest: set_remove1_subset [THEN subsetD])


lemma listing_step_page:
  assumes "listing_inv s" and "bound_inv w k s" and "r \<in> set (queue s)" and "req_cb r = ParseJson p"
  shows "p = Suc (length (listed s)) \<and> req_url r = get_page_url p \<and> 1 \<le> p \<and> p \<le> k"
proof -
  from assms(1,3,4) have "r = listing_request (get_page_url (Suc (length (listed s)))) (Suc (length (listed s)))"
    by (auto simp: listing_inv_def)
  moreover from assms(2,3,4) have "length (listed s) < k"
    by (auto simp: bound_inv_def)
  ultimately show ?thesis
    using assms(4) by simp
qed

lemma qi_first_step:
  assumes st: "engine_step method_page_url w s t" and ws: "well_served w k" and q: "qi_first s"
  shows "qi_first t"
  using st
proof cases
  case (start u b)
  have "req_url ` set [listing_request (get_page_url 1) 1] \<subseteq>
      set (seen (schedule [listing_request (get_page_url 1) 1] (s\<lparr>starts := remove1 u (starts s), errors := errors s\<rparr>)))"
    by (rule urls_seen_schedule)
  with start q show ?thesis
    by (auto simp: qi_first_def parse_method dest: set_remove1_subset [THEN subsetD])
next
  case (start_lost u)
  with q ws show ?thesis
    by (auto simp: qi_first_def well_served_def)
qed (use q engine_step_mono [OF st] in \<open>auto simp: qi_first_def\<close>)


lemma qi_queue_step:
  assumes st: "engine_step method_page_url w s t" and l: "listing_inv s" and b: "bound_inv w k s"
    and q: "qi_queue w k s"
  shows "qi_queue w k t"
  using st
proof cases
  case (start u b')
  have "set (queue t) \<subseteq> set (queue s) \<union> {listing_request (get_page_url 1) 1}"
    using queue_schedule_subset [of "[listing_request (get_page_url 1) 1]"
        "s\<lparr>starts := remove1 u (starts s), errors := errors s\<rparr>"] start
    by (auto simp: parse_method)
  with q show ?thesis
    by (auto simp: qi_queue_def)
next
  case (listing r p resp)
  from listing_step_page [OF l b listing(2,3)] listing(4)
  have pg: "1 \<le> p" "p \<le> k" and srv: "listing_srv w (get_page_url p) = Some resp"
    by simp_all
  let ?g = "fst (parse_json method_page_url (parser w) p resp)"
  have "set (page_links (parser w) (listing_srv w) p) \<subseteq> site_links w k"
  proof -
    from pg have "p \<in> set [1..<Suc k]" by (simp del: upt_Suc)
    then show ?thesis
      unfolding site_links_def by (rule set_concat_map_mem)
  qed
  with page_links_served [OF srv] have g: "\<forall>x\<in>set ?g. req_cb x = ParseReview \<longrightarrow> req_url x \<in> site_links w k"
    by auto
  let ?s1 = "(dequeue r s)\<lparr>listed := listed s @ [p],
      errors := errors s @ err_of (snd (parse_json method_page_url (parser w) p resp))\<rparr>"
  have "set (queue t) \<subseteq> set (queue ?s1) \<union> {x \<in> set ?g. req_url x \<notin> set (seen ?s1)}"
    unfolding listing(1) by (rule queue_schedule_subset)
  then have "set (queue t) \<subseteq> set (remove1 r (queue s)) \<union> set ?g"
    by auto
  with q g show ?thesis
    by (auto simp: qi_queue_def dest: set_remove1_subset [THEN subsetD])
qed (use q in \<open>auto simp: qi_queue_def dest: set_remove1_subset [THEN subsetD]\<close>)

lemma qi_next_step:
  assumes st: "engine_step method_page_url w s t" and l: "listing_inv s" and b: "bound_inv w k s"
    and q: "qi_next w s"
  shows "qi_next w t"
  using st
proof cases
  case (listing r p resp)
  from listing_step_page [OF l b listing(2,3)] listing(4)
  have srv: "listing_srv w (get_page_url p) = Some resp" by simp
  let ?g = "fst (parse_json method_page_url (parser w) p resp)"
  have new: "get_page_url (Suc p) \<in> set (seen t)" if "listing_more (parser w) (listing_srv w) p"
  proof -
    from listing_more_next [OF srv that] have "get_page_url (Suc p) \<in> req_url ` set ?g" by force
    with urls_seen_schedule [of ?g] listing(1) show ?thesis by blast
  qed
  from q engine_step_mono [OF st] new listing(1) show ?thesis
    by (auto simp: qi_next_def)
qed (use q engine_step_mono [OF st] in \<open>auto simp: qi_next_def\<close>)

lemma qi_fetched_extend:
  assumes "qi_fetched w s" and "listed t = listed s" and "fetched t = fetched s @ [u]"
    and "\<forall>j. u \<noteq> get_page_url j"
  shows "qi_fetched w t"
  unfolding qi_fetched_def
proof (intro allI impI)
  fix j assume "get_page_url j \<in> set (fetched t)"
  with assms(3,4) have "get_page_url j \<in> set (fetched s)" by auto
  with assms(1,2) show "j \<in> set (listed t) \<or> listing_srv w (get_page_url j) = None"
    by (simp add: qi_fetched_def)
qed

lemma qi_fetched_step:
  assumes st: "engine_step method_page_url w s t" and ws: "well_served w k" and l: "listing_inv s"
    and b: "bound_inv w k s" and qq: "qi_queue w k s" and q: "qi_fetched w s"
  shows "qi_fetched w t"
  using st
proof cases
  case (listing r p resp)
  from listing_step_page [OF l b listing(2,3)] have u: "req_url r = get_page_url p" by simp
  with q listing(1) show ?thesis
    by (auto simp: qi_fetched_def)
next
  case (listing_lost r p)
  from listing_step_page [OF l b listing_lost(2,3)] have u: "req_url r = get_page_url p" by simp
  with q listing_lost show ?thesis
    by (auto simp: qi_fetched_def)
next
  case (review r body)
  with qq have "req_url r \<in> site_links w k" by (simp add: qi_queue_def)
  with site_links_not_listing [OF ws] have ne: "\<forall>j. req_url r \<noteq> get_page_url j" by blast
  show ?thesis
    by (rule qi_fetched_extend [OF q]) (use review(1) ne in simp_all)
next
  case (review_lost r)
  with qq have "req_url r \<in> site_links w k" by (simp add: qi_queue_def)
  with site_links_not_listing [OF ws] have ne: "\<forall>j. req_url r \<noteq> get_page_url j" by blast
  show ?thesis
    by (rule qi_fetched_extend [OF q]) (use review_lost(1) ne in simp_all)
qed (use q in \<open>auto simp: qi_fetched_def\<close>)


lemma qi_links_step:
  assumes st: "engine_step method_page_url w s t" and l: "listing_inv s" and b: "bound_inv w k s"
    and q: "qi_links w s"
  shows "qi_links w t"
  using st
proof cases
  case (listing r p resp)
  from listing_step_page [OF l b listing(2,3)] listing(4)
  have srv: "listing_srv w (get_page_url p) = Some resp" by simp
  let ?g = "fst (parse_json method_page_url (parser w) p resp)"
  have "set (page_links (parser w) (listing_srv w) p) \<subseteq> req_url ` set ?g"
    using page_links_served [OF srv] by auto
  also have "\<dots> \<subseteq> set (seen t)"
    unfolding listing(1) by (rule urls_seen_schedule)
  finally have new: "set (page_links (parser w) (listing_srv w) p) \<subseteq> set (seen t)" .
  from q engine_step_mono [OF st] new listing(1) show ?thesis
    by (auto simp: qi_links_def)
qed (use q engine_step_mono [OF st] in \<open>auto simp: qi_links_def\<close>)

lemma qi_done_extend:
  assumes "qi_done w k s" and "set (items s) \<subseteq> set (items t)" and "fetched t = fetched s @ [u]"
    and "\<And>body. u \<in> site_links w k \<Longrightarrow> detail_srv w u = Some body \<Longrightarrow>
      set (item_of (parse_review (parser w) body)) \<subseteq> set (items t)"
  shows "qi_done w k t"
  unfolding qi_done_def
proof (intro ballI impI allI)
  fix v b assume v: "v \<in> set (fetched t)" and vl: "v \<in> site_links w k" and d: "detail_srv w v = Some b"
  show "set (item_of (parse_review (parser w) b)) \<subseteq> set (items t)"
  proof (cases "v = u")
    case True
    with assms(4) vl d show ?thesis by simp
  next
    case False
    with v assms(3) have "v \<in> set (fetched s)" by simp
    with assms(1,2) vl d show ?thesis
      unfolding qi_done_def by blast
  qed
qed

lemma qi_done_step:
  assumes st: "engine_step method_page_url w s t" and ws: "well_served w k" and l: "listing_inv s"
    and b: "bound_inv w k s" and q: "qi_done w k s"
  shows "qi_done w k t"
  using st
proof cases
  case (start u b')
  with q show ?thesis by (simp add: qi_done_def)
next
  case (start_lost u)
  with q show ?thesis by (simp add: qi_done_def)
next
  case (listing r p resp)
  from listing_step_page [OF l b listing(2,3)] have u: "req_url r = get_page_url p" by simp
  show ?thesis
    by (rule qi_done_extend [OF q, of _ "req_url r"])
      (use engine_step_mono [OF st] listing(1) u site_links_not_listing [OF ws] in auto)
next
  case (listing_lost r p)
  from listing_step_page [OF l b listing_lost(2,3)] have u: "req_url r = get_page_url p" by simp
  show ?thesis
    by (rule qi_done_extend [OF q, of _ "req_url r"])
      (use engine_step_mono [OF st] listing_lost(1) u site_links_not_listing [OF ws] in auto)
next
  case (review r body)
  show ?thesis
    by (rule qi_done_extend [OF q, of _ "req_url r"]) (use review in auto)
next
  case (review_lost r)
  show ?thesis
    by (rule qi_done_extend [OF q, of _ "req_url r"]) (use review_lost in auto)
qed

lemma qi_items_step:
  assumes st: "engine_step method_page_url w s t" and qq: "qi_queue w k s" and q: "qi_items w k s"
  shows "qi_items w k t"
  using st
proof cases
  case (review r body)
  with qq have "req_url r \<in> site_links w k" by (simp add: qi_queue_def)
  with q review show ?thesis
    by (auto simp: qi_items_def item_of_def split: sum.splits)
qed (use q in \<open>simp_all add: qi_items_def\<close>)


lemma complete_inv_init: "complete_inv w k (engine_init intended_start_urls)"
  by (simp add: complete_inv_def qi_first_def qi_queue_def qi_next_def qi_fetched_def qi_links_def
      qi_done_def qi_items_def engine_init_def intended_start_urls_def start_url_def)

lemma complete_inv_step:
  assumes st: "engine_step method_page_url w s t" and ws: "well_served w k"
    and l: "listing_inv s" and b: "bound_inv w k s" and c: "complete_inv w k s"
  shows "complete_inv w k t"
  using c qi_first_step [OF st ws] qi_queue_step [OF st l b] qi_next_step [OF st l b]
    qi_fetched_step [OF st ws l b] qi_links_step [OF st l b] qi_done_step [OF st ws l b]
    qi_items_step [OF st]
  by (simp add: complete_inv_def)

lemma well_served_last: "well_served w k \<Longrightarrow> 1 \<le> k \<and> \<not> listing_more (parser w) (listing_srv w) k"
  by (simp add: well_served_def)

lemma engine_reach_complete_inv:
  assumes "engine_reach intended_start_urls method_page_url w s" and ws: "well_served w k"
  shows "complete_inv w k s"
  using assms(1)
proof (induction rule: engine_reach.induct)
  case init
  show ?case by (rule complete_inv_init)
next
  case (step s t)
  have l: "listing_inv s" using step.hyps(1) by (rule engine_reach_listing_inv)
  have b: "bound_inv w k s"
    using engine_reach_bound_inv [OF step.hyps(1)] well_served_last [OF ws] by blast
  show ?case by (rule complete_inv_step [OF step.hyps(2) ws l b step.IH])
qed

text \<open>A listing page of the chain whose URL was recorded has run, once the queue
  is empty.\<close>

lemma quiescent_seen_listed:
  assumes ws: "well_served w k" and d: "dupe_inv s" and c: "complete_inv w k s" and q: "queue s = []"
    and j: "1 \<le> j" "j \<le> k" and u: "get_page_url j \<in> set (seen s)"
  shows "j \<in> set (listed s)"
proof -
  from d q u have "get_page_url j \<in> set (fetched s)"
    by (simp add: dupe_inv_def)
  with c have "j \<in> set (listed s) \<or> listing_srv w (get_page_url j) = None"
    by (simp add: complete_inv_def qi_fetched_def)
  with well_served_page [OF ws j] show ?thesis by auto
qed

lemma quiescent_listed:
  assumes r: "engine_reach intended_start_urls method_page_url w s" and ws: "well_served w k"
    and st: "starts s = []" and q: "queue s = []"
  shows "listed s = [1..<Suc k]"
proof -
  let ?n = "length (listed s)"
  have d: "dupe_inv s" using r by (rule engine_reach_dupe_inv)
  have c: "complete_inv w k s" using r ws by (rule engine_reach_complete_inv)
  have ls: "listed s = [1..<Suc ?n]"
    using engine_reach_listing_inv [OF r] by (simp add: listing_inv_def)
  have sl: "set (listed s) = {1..<Suc ?n}"
    using ls by (metis set_upt)
  have "?n \<le> k"
    using engine_reach_bound_inv [OF r] well_served_last [OF ws] by (simp add: bound_inv_def)
  moreover have "\<not> ?n < k"
  proof
    assume lt: "?n < k"
    show False
    proof (cases "?n = 0")
      case True
      from c st have "get_page_url 1 \<in> set (seen s)"
        by (simp add: complete_inv_def qi_first_def)
      from quiescent_seen_listed [OF ws d c q _ _ this] lt have "1 \<in> set (listed s)" by simp
      with True show False by simp
    next
      case False
      then have n: "?n \<in> set (listed s)" by (simp add: sl Suc_le_eq)
      from ws have "\<forall>j. 1 \<le> j \<and> j < k \<longrightarrow> listing_more (parser w) (listing_srv w) j"
        by (simp add: well_served_def)
      moreover from False have "1 \<le> ?n" by (simp add: Suc_le_eq)
      ultimately have "listing_more (parser w) (listing_srv w) ?n"
        using lt by blast
      with n c have "get_page_url (Suc ?n) \<in> set (seen s)"
        by (simp add: complete_inv_def qi_next_def)
      from quiescent_seen_listed [OF ws d c q _ _ this] lt have "Suc ?n \<in> set (listed s)" by simp
      then show False by (simp add: sl)
    qed
  qed
  ultimately have "?n = k" by simp
  with ls show ?thesis by simp
qed


text \<open>Once the run is quiescent, every link of the listing pages has been
  downloaded.\<close>

lemma quiescent_links_fetched:
  assumes r: "engine_reach intended_start_urls method_page_url w s" and ws: "well_served w k"
    and st: "starts s = []" and q: "queue s = []" and u: "u \<in> site_links w k"
  shows "u \<in> set (fetched s)"
proof -
  have c: "complete_inv w k s" using r ws by (rule engine_reach_complete_inv)
  from u obtain j where j: "j \<in> set [1..<Suc k]" and uj: "u \<in> set (page_links (parser w) (listing_srv w) j)"
    by (auto simp: site_links_def simp del: upt_Suc)
  from j quiescent_listed [OF r ws st q] have "j \<in> set (listed s)" by simp
  with c uj have "u \<in> set (seen s)"
    by (auto simp: complete_inv_def qi_links_def)
  with engine_reach_dupe_inv [OF r] q show ?thesis
    by (simp add: dupe_inv_def)
qed

lemma quiescent_items:
  assumes r: "engine_reach intended_start_urls method_page_url w s" and ws: "well_served w k"
    and st: "starts s = []" and q: "queue s = []"
  shows "set (items s) =
    {it. \<exists>u body. u \<in> site_links w k \<and> detail_srv w u = Some body \<and> parse_review (parser w) body = Inr it}"
proof (intro equalityI subsetI)
  have c: "complete_inv w k s" using r ws by (rule engine_reach_complete_inv)
  fix it
  {
    assume "it \<in> set (items s)"
    with c show "it \<in> {it. \<exists>u body. u \<in> site_links w k \<and> detail_srv w u = Some body \<and>
        parse_review (parser w) body = Inr it}"
      by (simp add: complete_inv_def qi_items_def)
  next
    assume "it \<in> {it. \<exists>u body. u \<in> site_links w k \<and> detail_srv w u = Some body \<and>
        parse_review (parser w) body = Inr it}"
    then obtain u body where u: "u \<in> site_links w k" and d: "detail_srv w u = Some body"
      and p: "parse_review (parser w) body = Inr it"
      by blast
    from quiescent_links_fetched [OF r ws st q u] c u d
    have "set (item_of (parse_review (parser w) body)) \<subseteq> set (items s)"
      by (simp add: complete_inv_def qi_done_def)
    with p show "it \<in> set (items s)"
      by (simp add: item_of_def)
  }
qed

lemma demo_site_links: "site_links demo_site 1 = {''/r1''}"
  by (simp add: site_links_def page_links_def listing_page_def demo_site_def demo_listing_def
      demo_parser_def review_links_def attr_def)

lemma demo_well_served: "well_served demo_site 1"
proof -
  have "site_links demo_site 1 \<inter> range get_page_url = {}"
    unfolding demo_site_links using demo_url_ne by auto
  then show ?thesis
    using demo_last_site
    by (simp add: well_served_def demo_site_def demo_listing_def start_url_def)
qed

section \<open>Properties\<close>

text \<open>C27. The engine implements the spec's contract, whatever order the scheduler
  picks requests in: on a well-served site whose listing chain ends at page \<open>k\<close>,
  a quiescent reachable state (no start URL and no request left) has run exactly the
  listing pages \<open>1, ..., k\<close>, and its items are exactly the reviews extracted
  without exception from the served review links of those pages.\<close>

theorem engine_quiescent_contract:
  assumes "engine_reach intended_start_urls method_page_url w s" and "well_served w k"
    and "starts s = []" and "queue s = []"
  shows "listed s = [1..<Suc k] \<and>
    set (items s) = {it. \<exists>u body. u \<in> site_links w k \<and> detail_srv w u = Some body \<and>
      parse_review (parser w) body = Inr it}"
  using quiescent_listed [OF assms] quiescent_items [OF assms] by blast

theorem engine_quiescent_contract_witness:
  "engine_reach intended_start_urls method_page_url demo_site demo_final \<and>
   starts demo_final = [] \<and> queue demo_final = [] \<and> listed demo_final = [1..<Suc 1] \<and>
   set (items demo_final) = {it. \<exists>u body. u \<in> site_links demo_site 1 \<and> detail_srv demo_site u = Some body \<and>
      parse_review (parser demo_site) body = Inr it}"
proof -
  have "starts demo_final = []" and "queue demo_final = []"
    by (simp_all add: demo_final_def)
  with demo_engine_reach engine_quiescent_contract [OF demo_engine_reach demo_well_served] show ?thesis
    by blast
qed

end
