(* ===== verification/Feed.thy ===== *)
theory Feed
  imports Quiescence
begin

text \<open>
  How often each review appears in the feed of a finished run. The spec asks for
  exactly one review per successfully parsed document (section 3). The set equation of
  \<open>Quiescence\<close> does not rule out an item fed twice. The count invariant
  \<open>count_inv\<close> does: it says the multiset of items is the multiset of reviews
  extracted from the downloaded review links. Together with the duplicate filter's
  invariant (no URL downloaded twice), it makes the quiescent feed a permutation of
  the reviews of the distinct site links.
\<close>

section \<open>Counting the feed\<close>

text \<open>What one review link contributes to the feed: the item of its body, if it
  is served and extracted without exception.\<close>

definition link_review :: "site \<Rightarrow> string \<Rightarrow> review_item option" where
  "link_review w u =
     (case detail_srv w u of
        None \<Rightarrow> None
      | Some body \<Rightarrow> (case parse_review (parser w) body of Inl _ \<Rightarrow> None | Inr r \<Rightarrow> Some r))"

definition count_inv :: "site \<Rightarrow> nat \<Rightarrow> engine \<Rightarrow> bool" where
  "count_inv w k s \<longleftrightarrow>
     mset (items s) = mset (List.map_filter (link_review w) (filter (\<lambda>u. u \<in> site_links w k) (fetched s)))"

section \<open>Lemmas\<close>

lemma mset_map_filter_perm:
  "mset xs = mset ys \<Longrightarrow> mset (List.map_filter f xs) = mset (List.map_filter f ys)"
  by (simp add: map_filter_def)

lemma link_review_item_of:
  "detail_srv w u = Some body \<Longrightarrow>
     List.map_filter (link_review w) [u] = item_of (parse_review (parser w) body)"
  by (simp add: link_review_def item_of_def map_filter_simps split: sum.splits)

lemma listing_url_not_link:
  assumes ws: "well_served w k" and l: "listing_inv s" and r: "r \<in> set (queue s)"
    and cb: "req_cb r = ParseJson p"
  shows "req_url r \<notin> site_links w k"
proof -
  from l r cb have "r = listing_request (get_page_url (Suc (length (listed s)))) (Suc (length (listed s)))"
    by (auto simp: listing_inv_def)
  then show ?thesis
    using site_links_not_listing [OF ws] by auto
qed

lemma count_inv_init: "count_inv w k (engine_init start)"
  by (simp add: count_inv_def engine_init_def map_filter_simps split: sum.splits)

lemma count_inv_step:
  assumes st: "engine_step method_page_url w s t" and ws: "well_served w k"
    and l: "listing_inv s" and qq: "qi_queue w k s" and c: "count_inv w k s"
  shows "count_inv w k t"
  using st
proof cases
  case (listing r p resp)
  with listing_url_not_link [OF ws l listing(2,3)] c show ?thesis
    by (simp add: count_inv_def)
next
  case (listing_lost r p)
  with listing_url_not_link [OF ws l listing_lost(2,3)] c show ?thesis
    by (simp add: count_inv_def)
next
  case (review r body)
  from review qq have "req_url r \<in> site_links w k" by (simp add: qi_queue_def)
  with review c link_review_item_of [OF review(4)] show ?thesis
    by (simp add: count_inv_def)
next
  case (review_lost r)
  from review_lost qq have "req_url r \<in> site_links w k" by (simp add: qi_queue_def)
  with review_lost c show ?thesis
    by (simp add: count_inv_def map_filter_simps link_review_def)
qed (use c in \<open>simp_all add: count_inv_def\<close>)

lemma engine_reach_count_inv:
  assumes "engine_reach intended_start_urls method_page_url w s" and ws: "well_served w k"
  shows "count_inv w k s"
  using assms(1)
proof (induction rule: engine_reach.induct)
  case init
  show ?case by (rule count_inv_init)
next
  case (step s t)
  have l: "listing_inv s" using step.hyps(1) by (rule engine_reach_listing_inv)
  have "qi_queue w k s"
    using engine_reach_complete_inv [OF step.hyps(1) ws] by (simp add: complete_inv_def)
  from count_inv_step [OF step.hyps(2) ws l this step.IH] show ?case .
qed

text \<open>The quiescent feed is, up to order, the reviews of the distinct links of the
  listing pages, each once.\<close>

lemma quiescent_items_mset:
  assumes r: "engine_reach intended_start_urls method_page_url w s" and ws: "well_served w k"
    and st: "starts s = []" and q: "queue s = []"
  shows "mset (items s) =
    mset (List.map_filter (link_review w) (remdups (concat (map (page_links (parser w) (listing_srv w)) [1..<Suc k]))))"
proof -
  let ?L = "concat (map (page_links (parser w) (listing_srv w)) [1..<Suc k])"
  let ?F = "filter (\<lambda>u. u \<in> site_links w k) (fetched s)"
  have "distinct (fetched s)"
    using engine_reach_dupe_inv [OF r] by (simp add: dupe_inv_def)
  then have d: "distinct ?F" by simp
  have "set ?F = site_links w k"
    using quiescent_links_fetched [OF r ws st q] by auto
  then have "set ?F = set (remdups ?L)"
    by (simp add: site_links_def)
  then have "mset ?F = mset (remdups ?L)"
    by (rule set_eq_iff_mset_eq_distinct [OF d distinct_remdups, THEN iffD1])
  then have "mset (List.map_filter (link_review w) ?F) = mset (List.map_filter (link_review w) (remdups ?L))"
    by (rule mset_map_filter_perm)
  with engine_reach_count_inv [OF r ws] show ?thesis
    by (simp add: count_inv_def)
qed

end
