(* ===== verification/Spec2Isabelle.thy ===== *)
theory Spec2Isabelle
  imports Feed
begin

text \<open>
  Verification development of the rogerebert.com review scraper, the Scrapy spider
  \<^verbatim>\<open>RogerEbertSpider\<close> of \<^verbatim>\<open>src/src/scrape.py\<close> (the only source file).

  \<^bold>\<open>The program.\<close> The spider has two halves that the Scrapy engine connects. The
  pagination crawler (\<^verbatim>\<open>start_urls\<close>, \<^verbatim>\<open>parse\<close>, \<^verbatim>\<open>parse_json\<close>,
  \<^verbatim>\<open>get_page_url\<close>, lines 9--43) requests the listing endpoint page by page
  with \<^verbatim>\<open>Accept: application/json\<close>, reads the JSON envelope
  (\<^verbatim>\<open>html\<close>, \<^verbatim>\<open>more\<close>), follows every \<^verbatim>\<open>//h5/a/@href\<close> of the fragment
  to \<^verbatim>\<open>parse_review\<close> and requests the next page while \<^verbatim>\<open>more\<close> is truthy.
  The review extractor (\<^verbatim>\<open>parse_review\<close>, lines 45--104) reads the TMDB id of
  the JustWatch widget, injects carriage returns around \<open><i>\<close> tags, re-parses
  the page and extracts the movie title, the dateline, the article title and body
  blocks, the "great movie" drop cap and the star rating, converts the date and
  yields one item.

  \<^bold>\<open>Theories.\<close>
  \<^item> \<open>Prelude\<close>: the Python exceptions (\<open>py_error\<close>), the result type
    \<open>'a py_result = py_error + 'a\<close> (an exception is the left value),
    \<open>xs[-1]\<close> (\<open>py_last\<close>), \<open>d[k]\<close> (\<open>py_getitem\<close>),
    \<open>SelectorList.get()\<close> (\<open>get_first\<close>), shared list lemmas.
  \<^item> \<open>PyStr\<close>: the \<open>str\<close> methods the source calls, on Isabelle strings:
    \<open>strip\<close> (\<open>py_strip\<close> with \<open>py_isspace\<close>), \<open>replace\<close>
    (\<open>py_replace\<close>, a left-to-right non-overlapping pass), \<open>split\<close>,
    \<open>join\<close>, decimal printing and reading of naturals, \<open>zfill\<close>; with the
    algebra of \<open>replace\<close> (replace is split then join, single-character
    replacement, what survives a pass) and the print/read round trip.
  \<^item> \<open>Html\<close>: the element/text tree the HTML parser builds and the queries the
    spider makes (descendant and parent/child steps in document order, the
    cssselect translation of class selectors with \<open>normalize-space\<close>,
    \<open>::text\<close>). The parser itself is a parameter \<open>html_parser\<close>.
  \<^item> \<open>Rating\<close>: lines 73--89 (\<open>star_icons\<close>, the \<open>try\<close> body
    \<open>rating_try\<close>, the handler \<open>star_rating\<close>), an abstract outcome
    specification and the refinement lemma; the half-step bounds (a present rating
    is never below one half, so never the spec's 0), the dependence on the count and
    the last icon only, and the exceptions of the \<open>try\<close> body (C1--C4).
  \<^item> \<open>Article\<close>: lines 55--68 and 94--95 (\<open>inject_italics\<close>,
    \<open>article_sections\<close>, \<open>clean_section\<close>, \<open>article_copy\<close>,
    \<open>build_review\<close>): the reconstruction on clean input, the paragraphs made of
    italics markers, the absence of markers, the surviving quadruple break (C5--C8);
    the spec's marker scan \<open>wrap_italics\<close> (section 4.4, step 1) and the
    equivalence of the code's two \<open>replace\<close> passes with it (C9).
  \<^item> \<open>Dates\<close>: line 92, \<open>datetime.strptime(d, '%B %d, %Y').strftime('%Y-%m-%d')\<close>,
    with CPython's \<open>_strptime\<close> regular expression for the format as a
    backtracking parser (\<open>rx_date\<close>: month alternatives in CPython's order,
    whitespace runs, one- or two-digit day, four-digit year), the calendar check and
    the zero-padded printer; the round trip from English dates, the failure on
    untrimmed text, the ISO shape (C10--C12).
  \<^item> \<open>Review\<close>: the whole handler \<open>parse_review\<close> composed from the above,
    the output record \<open>review_item\<close> and its exceptions (C13--C16), and the
    well-formedness of every item it yields (\<open>wf_item\<close>: trimmed title, half-step
    rating, ISO date, tag; C23).
  \<^item> \<open>Crawler\<close>: the class body (with Python's name resolution, so that the
    unbound \<open>self\<close> of line 12 and the bare \<open>get_page_url\<close> of lines 16 and 36
    are the \<open>NameError\<close>s they are), \<open>parse\<close>, \<open>parse_json\<close> and
    \<open>get_page_url\<close> as generators (requests yielded, then the exception), and the
    listing chain \<open>crawl_listing\<close> that the engine runs; the URL round trip, the
    spider as written crawling nothing, termination when \<open>more\<close> turns false,
    divergence when every served envelope says \<open>more\<close> (no page ceiling), the links
    collected, and the next-page decision as the envelope's \<open>more\<close> flag (C17--C22).
  \<^item> \<open>Engine\<close>: the Scrapy engine that runs the callbacks, as an
    \<^theory_text>\<open>inductive\<close> step relation \<open>engine_step\<close> on a record of the start URLs,
    the scheduler queue, the duplicate filter's fingerprints, the downloaded URLs, the
    listing pages run, the items and the exceptions. A step downloads any start URL
    or any queued request (so every scheduling order and interleaving is covered),
    runs \<open>parse\<close>, \<open>parse_json\<close> or \<open>parse_review\<close> on the response or
    drops a failed download, and schedules the yielded requests through the filter.
    Invariants over the reachable states \<open>engine_reach\<close>, by rule induction: the
    duplicate filter's (\<open>dupe_inv\<close>: no URL downloaded twice), and, with the
    method bound, that the listing pages run as \<open>1, ..., n\<close> with at most one
    listing request waiting (C24). A concrete run on a small site shows the
    hypotheses of the engine properties are met.
  \<^item> \<open>EngineRun\<close>: whole runs of the engine. Every downloaded URL is a start
    URL, a listing URL or a link of a listing page the site serves
    (\<open>site_urls\<close>, \<open>bound_inv\<close>), so a run downloads finitely many pages
    (C25); the measure \<open>work_left\<close> (URLs not yet downloaded, plus the queue and the
    start URLs) falls at every step, so the step relation on the reachable states is
    well founded: no infinite run (C26).
  \<^item> \<open>Quiescence\<close>: what a finished crawl holds. On a well-served site
    (\<open>well_served\<close>: the listing chain ends at page \<open>k\<close>, the listing pages and the
    start page are served, no review link is a listing URL), an invariant of seven
    conjuncts (\<open>qi_first\<close> to \<open>qi_items\<close>, each preserved by its own lemma) shows
    that a quiescent reachable state has run exactly the listing pages
    \<open>1, ..., k\<close> and holds exactly the reviews extracted from the served links of
    those pages, whatever the scheduling order (C27).
  \<^item> \<open>Feed\<close>: how often each review is fed. The count invariant \<open>count_inv\<close>
    (the multiset of items is the multiset of reviews of the downloaded review links,
    \<open>link_review\<close>) holds in every reachable state; with the duplicate filter's
    invariant it makes a quiescent feed a permutation of the reviews of the distinct
    links of the listing pages (\<open>quiescent_items_mset\<close>).
  \<^item> This theory: the sequential model of a run, \<open>scrape\<close> (the crawl, then every
    distinct review link fetched and extracted, the failed ones dropped), and the
    agreement of the two models: a quiescent engine state holds the items of
    \<open>scrape\<close> with the same multiplicities, only their order may differ (C28).

  \<^bold>\<open>Modelling choices.\<close> Characters are the 8-bit \<open>char\<close> type: the model
  covers text in the Latin-1 range, where \<open>str.isspace\<close> is the set
  \<open>py_isspace\<close>; code points beyond it are not represented. The two callbacks
  whose URL function the source gets wrong take it as a parameter:
  \<open>bare_page_url\<close> is the source's binding (a \<open>NameError\<close>),
  \<open>method_page_url\<close> the method it means; every crawler property names the binding
  it is about. The listing chain may not end, so it is a
  \<^theory_text>\<open>partial_function (option)\<close> (no fuel): \<open>None\<close> is a crawl that never
  returns, termination is proved as the existence of a result, and non-termination as
  the result \<open>None\<close>. Ratings are \<open>rat\<close>: the values \<open>k\<close> and \<open>k + 0.5\<close>
  that the code computes are exact binary floats.

  \<^bold>\<open>Not modelled.\<close> The HTML parser (lxml) and \<open>json.loads\<close> are external:
  their outputs (a tree, a decoded envelope or \<open>ValueError\<close>) are inputs of the
  model. The engine model leaves the scheduler's order and the downloader's
  concurrency open (any waiting request may go next) rather than fixing Scrapy's
  LIFO queue, so its invariants hold for every order; retries, request priorities,
  middlewares, URL joining in \<open>response.follow\<close> (links are kept as written, and
  the duplicate filter's fingerprint is the link itself rather than Scrapy's
  canonical absolute URL) and the feed exporter are not modelled. The download of
  the start page is not recorded among the downloaded URLs, so the download bound
  (C25) counts the listing and review pages only. The order of the items in the feed is not
  claimed (it depends on the scheduler); their multiplicities are.
\<close>

section \<open>The feed\<close>

text \<open>Each distinct followed link is fetched and extracted; an extraction that
  raises yields no item.\<close>

definition review_items :: "html_parser \<Rightarrow> review_server \<Rightarrow> string list \<Rightarrow> review_item list" where
  "review_items parse_html pages links =
     List.map_filter
       (\<lambda>link. case pages link of
                 None \<Rightarrow> None
               | Some body \<Rightarrow> (case parse_review parse_html body of Inl _ \<Rightarrow> None | Inr r \<Rightarrow> Some r))
       (remdups links)"

definition scrape ::
  "(nat \<Rightarrow> string py_result) \<Rightarrow> html_parser \<Rightarrow> listing_server \<Rightarrow> review_server \<Rightarrow> review_item list option" where
  "scrape page_url parse_html srv pages =
     map_option (\<lambda>cl. review_items parse_html pages (found cl)) (crawl page_url parse_html srv)"

section \<open>Lemmas\<close>

lemma demo_crawl:
  "crawl method_page_url demo_parser demo_listing = Some \<lparr>visited = [1], found = [''/r1''], failures = []\<rparr>"
  unfolding crawl_method
  by (subst crawl_listing.simps)
    (simp add: demo_listing_def demo_parser_def parse_json_def review_links_def attr_def page_log_def)

lemma scrape_found:
  assumes "1 \<le> k" and "\<forall>j. 1 \<le> j \<and> j < k \<longrightarrow> listing_more ph srv j"
    and "\<not> listing_more ph srv k"
  shows "scrape method_page_url ph srv pages = Some (review_items ph pages (concat (map (page_links ph srv) [1..<Suc k])))"
proof -
  from crawl_listing_visits [OF assms] obtain cl
    where "crawl method_page_url ph srv = Some cl"
      and "found cl = concat (map (page_links ph srv) [1..<Suc k])"
    by (auto simp: crawl_method)
  then show ?thesis
    by (simp add: scrape_def)
qed

lemma review_items_link_review:
  "review_items (parser w) (detail_srv w) links = List.map_filter (link_review w) (remdups links)"
  by (simp add: review_items_def link_review_def [abs_def])

section \<open>Properties\<close>

text \<open>C28. The two models of a whole run agree: on a well-served site whose listing
  chain ends at page \<open>k\<close>, the items of any quiescent reachable state of the engine,
  whatever order its scheduler took, are the items of the sequential model
  \<open>scrape\<close> (the listing chain, then every distinct link fetched and extracted),
  with the same multiplicities: each review is fed exactly once, only the order may
  differ.\<close>

theorem engine_refines_scrape:
  assumes "engine_reach intended_start_urls method_page_url w s" and ws: "well_served w k"
    and "starts s = []" and "queue s = []"
    and sc: "scrape method_page_url (parser w) (listing_srv w) (detail_srv w) = Some its"
  shows "mset (items s) = mset its"
proof -
  from ws have "1 \<le> k" and "\<forall>j. 1 \<le> j \<and> j < k \<longrightarrow> listing_more (parser w) (listing_srv w) j"
    and "\<not> listing_more (parser w) (listing_srv w) k"
    by (simp_all add: well_served_def)
  from scrape_found [OF this, of "detail_srv w"] sc
  have "its = review_items (parser w) (detail_srv w) (concat (map (page_links (parser w) (listing_srv w)) [1..<Suc k]))"
    by simp
  with quiescent_items_mset [OF assms(1-4)] show ?thesis
    by (simp add: review_items_link_review)
qed

theorem engine_refines_scrape_witness:
  "engine_reach intended_start_urls method_page_url demo_site demo_final \<and>
   starts demo_final = [] \<and> queue demo_final = [] \<and>
   scrape method_page_url (parser demo_site) (listing_srv demo_site) (detail_srv demo_site) = Some [demo_item] \<and>
   mset (items demo_final) = mset [demo_item]"
proof -
  have e: "starts demo_final = []" "queue demo_final = []"
    by (simp_all add: demo_final_def)
  have sc: "scrape method_page_url (parser demo_site) (listing_srv demo_site) (detail_srv demo_site) = Some [demo_item]"
    by (simp add: scrape_def demo_site_def demo_crawl review_items_def demo_pages_def demo_review
        map_filter_simps base_url_def)
  show ?thesis
    using demo_engine_reach e sc engine_refines_scrape [OF demo_engine_reach demo_well_served e sc] by blast
qed

end
